theory Spec2Isabelle
  imports Main "HOL-Library.Multiset" "HOL-Library.List_Lexorder" "HOL-Library.Product_Lexorder"
begin

section \<open>Strings as Python sees them\<close>

text \<open>
  Paths, file names and captured process output are \<^typ>\<open>string\<close>s. Characters are
  modelled as ASCII: a digit is one of \<open>0\<close>..\<open>9\<close>, whitespace is what \<open>str.isspace\<close>
  accepts below code point 128, and \<open>str.lower\<close> maps \<open>A\<close>..\<open>Z\<close> to \<open>a\<close>..\<open>z\<close>.
\<close>

definition is_digit :: "char \<Rightarrow> bool" where
  "is_digit c = (c \<in> set ''0123456789'')"

definition is_space :: "char \<Rightarrow> bool" where
  "is_space c = (let n = (of_char c :: nat) in (9 \<le> n \<and> n \<le> 13) \<or> (28 \<le> n \<and> n \<le> 32))"

definition strip :: "string \<Rightarrow> string" where
  "strip s = rev (dropWhile is_space (rev (dropWhile is_space s)))"

definition lower_char :: "char \<Rightarrow> char" where
  "lower_char c = (if c \<in> set ''ABCDEFGHIJKLMNOPQRSTUVWXYZ''
                   then char_of ((of_char c :: nat) + 32) else c)"

definition lower :: "string \<Rightarrow> string" where
  "lower s = map lower_char s"

definition isdigit :: "string \<Rightarrow> bool" where
  "isdigit t = (t \<noteq> [] \<and> list_all is_digit t)"

definition digit_val :: "char \<Rightarrow> nat" where
  "digit_val c = of_char c - 48"

definition digits_val :: "string \<Rightarrow> nat" where
  "digits_val t = foldl (\<lambda>acc c. 10 * acc + digit_val c) 0 t"

fun no_double_underscore :: "string \<Rightarrow> bool" where
  "no_double_underscore (a # b # r) =
     ((a \<noteq> CHR ''_'' \<or> b \<noteq> CHR ''_'') \<and> no_double_underscore (b # r))"
| "no_double_underscore r = True"

definition int_body_ok :: "string \<Rightarrow> bool" where
  "int_body_ok b = (b \<noteq> [] \<and> is_digit (hd b) \<and> is_digit (last b) \<and>
                    list_all (\<lambda>c. is_digit c \<or> c = CHR ''_'') b \<and> no_double_underscore b)"

text \<open>
  Python's \<open>int(txt)\<close> on a string, base 10: surrounding whitespace is dropped, one sign
  is optional, then decimal digits in which single underscores may separate digits.
  \<open>None\<close> is the \<open>ValueError\<close>. (The optional limit on the number of digits of recent
  interpreters is not modelled.)
\<close>

definition py_int :: "string \<Rightarrow> int option" where
  "py_int s =
     (case strip s of
        [] \<Rightarrow> None
      | c # r \<Rightarrow>
          (let neg = (c = CHR ''-'');
               body = (if c = CHR ''-'' \<or> c = CHR ''+'' then r else c # r)
           in if int_body_ok body
              then (let v = int (digits_val (filter (\<lambda>d. d \<noteq> CHR ''_'') body))
                    in Some (if neg then - v else v))
              else None))"

section \<open>Exceptions, the filesystem and the external tool\<close>

text \<open>
  \<open>exn\<close> holds the subclasses of Python's \<open>Exception\<close> that the program can meet;
  \<open>SystemExit\<close> is not one of them and is an outcome of \<open>main\<close> only, so that
  \<open>except Exception\<close> catches every value of this type.
\<close>

datatype exn =
    FileNotFoundError
  | FileExistsError
  | PermissionError
  | RuntimeError string
  | TypeError
  | ValueError

type_synonym path = string

datatype content = Bytes string | Json_basenames "string list"

datatype fs_op = Unlink path | Replace path path | Mkdir path | OpenWrite path

datatype event = Exec "string list" | Wrote path content

record completed =
  returncode :: int
  stdout :: string
  stderr :: string

text \<open>
  The state of the run: the regular files (by path, relative to the working directory),
  the names that \<open>root.iterdir()\<close> yields, in the order the operating system gives them,
  the operations the operating system refuses, and the trace of subprocess launches and
  of files written by the program itself.
\<close>

record world =
  files :: "path \<rightharpoonup> content"
  listing :: "path list"
  denied :: "fs_op \<Rightarrow> bool"
  trace :: "event list"

text \<open>
  The external image tool is a parameter: given the argument vector and the files, it
  either cannot be launched (an exception of \<open>subprocess.run\<close>) or completes with a
  return code and captured output, and it may change the files.
\<close>

type_synonym tool = "string list \<Rightarrow> (path \<rightharpoonup> content) \<Rightarrow> (exn + completed) \<times> (path \<rightharpoonup> content)"

definition run :: "tool \<Rightarrow> string list \<Rightarrow> world \<Rightarrow> (exn + completed) \<times> world" where
  "run t args w =
     (case t args (files w) of
        (r, f') \<Rightarrow> (r, w\<lparr>files := f', trace := trace w @ [Exec args]\<rparr>))"

fun join_sp :: "string list \<Rightarrow> string" where
  "join_sp [] = []"
| "join_sp [a] = a"
| "join_sp (a # b # r) = a @ '' '' @ join_sp (b # r)"

definition run_cmd :: "tool \<Rightarrow> string list \<Rightarrow> world \<Rightarrow> (exn + completed) \<times> world" where
  "run_cmd t args w =
     (case run t args w of
        (Inl e, w') \<Rightarrow> (Inl e, w')
      | (Inr result, w') \<Rightarrow>
          if returncode result \<noteq> 0
          then (Inl (RuntimeError (''Command failed: '' @ join_sp args @ [CHR 0x0A] @ ''STDOUT:''
                   @ [CHR 0x0A] @ stdout result @ [CHR 0x0A] @ ''STDERR:'' @ [CHR 0x0A]
                   @ stderr result)), w')
          else (Inr result, w'))"

section \<open>Page Inspector\<close>

definition identify_args :: "string \<Rightarrow> path \<Rightarrow> string list" where
  "identify_args im_cmd tif_path =
     (if im_cmd = ''magick'' then [im_cmd, ''identify'', ''-format'', ''%n'', tif_path]
      else [im_cmd, tif_path, ''-format'', ''%n'', ''info:''])"

definition py_or :: "string \<Rightarrow> string \<Rightarrow> string" where
  "py_or a b = (if a \<noteq> [] then a else b)"

definition identify_num_pages :: "tool \<Rightarrow> string \<Rightarrow> path \<Rightarrow> world \<Rightarrow> (exn + int) \<times> world" where
  "identify_num_pages t im_cmd tif_path w =
     (case run_cmd t (identify_args im_cmd tif_path) w of
        (Inl e, w') \<Rightarrow> (Inl e, w')
      | (Inr out, w') \<Rightarrow>
          (let txt = py_or (strip (stdout out)) (strip (stderr out))
           in case py_int txt of
                Some n \<Rightarrow> (Inr n, w')
              | None \<Rightarrow> (Inr 1, w')))"

section \<open>Filesystem primitives\<close>

text \<open>
  \<open>Path.unlink\<close>, \<open>Path.replace\<close> (\<open>os.replace\<close>: the destination is overwritten),
  \<open>Path.exists\<close>, \<open>Path.mkdir(exist_ok=True)\<close> and opening a file for writing. Each
  raises when its source is missing or when the operating system refuses it.
\<close>

definition exists_path :: "path \<Rightarrow> world \<Rightarrow> bool" where
  "exists_path p w = (files w p \<noteq> None)"

definition unlink :: "path \<Rightarrow> world \<Rightarrow> (exn + unit) \<times> world" where
  "unlink p w =
     (if files w p = None then (Inl FileNotFoundError, w)
      else if denied w (Unlink p) then (Inl PermissionError, w)
      else (Inr (), w\<lparr>files := (files w)(p := None)\<rparr>))"

definition os_replace :: "path \<Rightarrow> path \<Rightarrow> world \<Rightarrow> (exn + unit) \<times> world" where
  "os_replace src dst w =
     (case files w src of
        None \<Rightarrow> (Inl FileNotFoundError, w)
      | Some c \<Rightarrow>
          if denied w (Replace src dst) then (Inl PermissionError, w)
          else (Inr (), w\<lparr>files := ((files w)(src := None))(dst \<mapsto> c)\<rparr>))"

definition mkdir_exist_ok :: "path \<Rightarrow> world \<Rightarrow> (exn + unit) \<times> world" where
  "mkdir_exist_ok p w =
     (if files w p \<noteq> None then (Inl FileExistsError, w)
      else if denied w (Mkdir p) then (Inl PermissionError, w)
      else (Inr (), w))"

definition write_file :: "path \<Rightarrow> content \<Rightarrow> world \<Rightarrow> (exn + unit) \<times> world" where
  "write_file p c w =
     (if denied w (OpenWrite p) then (Inl PermissionError, w)
      else (Inr (), w\<lparr>files := (files w)(p \<mapsto> c), trace := trace w @ [Wrote p c]\<rparr>))"

text \<open>The idiom \<open>try: p.unlink() except Exception: pass\<close>.\<close>

definition try_unlink :: "path \<Rightarrow> world \<Rightarrow> world" where
  "try_unlink p w = snd (unlink p w)"

text \<open>
  \<open>p.with_suffix(p.suffix + s)\<close> replaces the suffix of the last component by itself
  followed by \<open>s\<close>, which appends \<open>s\<close> to the path.
\<close>

definition add_suffix :: "path \<Rightarrow> string \<Rightarrow> path" where
  "add_suffix p s = p @ s"

section \<open>Atomic Publisher\<close>

text \<open>
  The end of \<open>safe_replace\<close>, shared by its two ways through the first rename: the new
  file is renamed onto the original, and then the backup is removed if that is possible.
\<close>

definition publish_step3 :: "path \<Rightarrow> path \<Rightarrow> path \<Rightarrow> world \<Rightarrow> (exn + unit) \<times> world" where
  "publish_step3 original newfile backup w =
     (case os_replace newfile original w of
        (Inl e, w') \<Rightarrow> (Inl e, w')
      | (Inr u, w') \<Rightarrow> (Inr (), try_unlink backup w'))"

definition safe_replace :: "path \<Rightarrow> path \<Rightarrow> world \<Rightarrow> (exn + unit) \<times> world" where
  "safe_replace original newfile w =
     (let backup = add_suffix original ''.bak'';
          w1 = (if exists_path backup w then try_unlink backup w else w)
      in case os_replace original backup w1 of
           (Inl e, w2) \<Rightarrow>
             if e = FileNotFoundError then publish_step3 original newfile backup w2
             else (Inl e, w2)
         | (Inr u, w2) \<Rightarrow> publish_step3 original newfile backup w2)"

section \<open>Channel Compositor, Compressor, Thumbnailer\<close>

definition combine_args :: "string \<Rightarrow> string option \<Rightarrow> path \<Rightarrow> int \<Rightarrow> path \<Rightarrow> string list" where
  "combine_args im_cmd mode in_path n_pages temp_combined =
     (if n_pages \<ge> 3
      then (if mode = Some ''magick'' then [im_cmd] else [im_cmd])
           @ [in_path @ ''[0]'', in_path @ ''[1]'', in_path @ ''[2]'', ''-combine'', temp_combined]
      else (if mode = Some ''magick'' then [im_cmd] else [im_cmd])
           @ [in_path @ ''[0]'', in_path @ ''[1]'', in_path @ ''[1]'', ''-combine'', temp_combined])"

definition combine_channels_if_needed ::
  "tool \<Rightarrow> string \<Rightarrow> string option \<Rightarrow> path \<Rightarrow> world \<Rightarrow> (exn + path) \<times> world" where
  "combine_channels_if_needed t im_cmd mode in_path w =
     (case identify_num_pages t im_cmd in_path w of
        (Inl e, w1) \<Rightarrow> (Inl e, w1)
      | (Inr n_pages, w1) \<Rightarrow>
          if n_pages \<le> 1 then (Inr in_path, w1)
          else
            (let temp_combined = add_suffix in_path ''.rgb.tmp.tif'';
                 w2 = (if exists_path temp_combined w1 then try_unlink temp_combined w1 else w1)
             in case run_cmd t (combine_args im_cmd mode in_path n_pages temp_combined) w2 of
                  (Inl e, w3) \<Rightarrow> (Inl e, w3)
                | (Inr r, w3) \<Rightarrow> (Inr temp_combined, w3)))"

definition lzw_compress_tiff_inplace ::
  "tool \<Rightarrow> string \<Rightarrow> string option \<Rightarrow> path \<Rightarrow> world \<Rightarrow> (exn + path) \<times> world" where
  "lzw_compress_tiff_inplace t im_cmd mode in_path w =
     (let temp_out = add_suffix in_path ''.lzw.tmp.tif'';
          w1 = (if exists_path temp_out w then try_unlink temp_out w else w);
          args = (if mode = Some ''magick'' then [im_cmd] else [im_cmd])
                 @ [in_path, ''-compress'', ''LZW'', temp_out]
      in case run_cmd t args w1 of
           (Inl e, w2) \<Rightarrow> (Inl e, w2)
         | (Inr r, w2) \<Rightarrow> (Inr temp_out, w2))"

text \<open>
  \<open>Path.parent\<close> of a relative path: what stands before the last separator, or \<open>.\<close>.
  Directories are not part of the state, so \<open>mkdir(parents=True, exist_ok=True)\<close> is
  the same check as \<open>mkdir(exist_ok=True)\<close>.
\<close>

definition parent_dir :: "path \<Rightarrow> path" where
  "parent_dir p =
     (if CHR ''/'' \<in> set p then rev (tl (dropWhile (\<lambda>c. c \<noteq> CHR ''/'') (rev p)))
      else ''.'')"

definition make_thumbnail ::
  "tool \<Rightarrow> string \<Rightarrow> string option \<Rightarrow> path \<Rightarrow> path \<Rightarrow> world \<Rightarrow> (exn + unit) \<times> world" where
  "make_thumbnail t im_cmd mode in_path out_jpg w =
     (case mkdir_exist_ok (parent_dir out_jpg) w of
        (Inl e, w1) \<Rightarrow> (Inl e, w1)
      | (Inr u, w1) \<Rightarrow>
          (let args = (if mode = Some ''magick'' then [im_cmd] else [im_cmd])
                      @ [in_path, ''-thumbnail'', ''256x256^'', ''-gravity'', ''center'',
                         ''-extent'', ''256x256'', out_jpg]
           in case run_cmd t args w1 of
                (Inl e, w2) \<Rightarrow> (Inl e, w2)
              | (Inr r, w2) \<Rightarrow> (Inr (), w2)))"

section \<open>Natural sort key and Python's \<open>sorted\<close>\<close>

text \<open>
  \<open>re.findall(r"\d+|\D+", s)\<close>: at each position the longest run of digits, or else the
  longest run of non-digits.
\<close>

function tokens :: "string \<Rightarrow> string list" where
  "tokens s =
     (if s = [] then []
      else if is_digit (hd s)
           then takeWhile is_digit s # tokens (dropWhile is_digit s)
           else takeWhile (\<lambda>c. \<not> is_digit c) s # tokens (dropWhile (\<lambda>c. \<not> is_digit c) s))"
  by pat_completeness auto
termination
proof (relation "measure length")
  show "wf (measure length)" by simp
next
  fix s :: string
  assume "s \<noteq> []" "is_digit (hd s)"
  then have "dropWhile is_digit s = dropWhile is_digit (tl s)"
    by (cases s) auto
  moreover have "length (dropWhile is_digit (tl s)) \<le> length (tl s)"
    by (rule length_dropWhile_le)
  moreover from \<open>s \<noteq> []\<close> have "length (tl s) < length s" by (cases s) auto
  ultimately show "(dropWhile is_digit s, s) \<in> measure length" by simp
next
  fix s :: string
  assume "s \<noteq> []" "\<not> is_digit (hd s)"
  then have "dropWhile (\<lambda>c. \<not> is_digit c) s = dropWhile (\<lambda>c. \<not> is_digit c) (tl s)"
    by (cases s) auto
  moreover have "length (dropWhile (\<lambda>c. \<not> is_digit c) (tl s)) \<le> length (tl s)"
    by (rule length_dropWhile_le)
  moreover from \<open>s \<noteq> []\<close> have "length (tl s) < length s" by (cases s) auto
  ultimately show "(dropWhile (\<lambda>c. \<not> is_digit c) s, s) \<in> measure length" by simp
qed

datatype token = TInt int | TStr string

definition natural_sort_key :: "string \<Rightarrow> token list" where
  "natural_sort_key s =
     map (\<lambda>t. if isdigit t then TInt (int (digits_val t)) else TStr (lower t)) (tokens s)"

text \<open>Python's \<open><\<close> on strings: lexicographic by code point.\<close>

fun str_lt :: "string \<Rightarrow> string \<Rightarrow> bool" where
  "str_lt [] [] = False"
| "str_lt [] (y # ys) = True"
| "str_lt (x # xs) [] = False"
| "str_lt (x # xs) (y # ys) =
     (if x = y then str_lt xs ys else (of_char x :: nat) < of_char y)"

text \<open>Python's \<open><\<close> between an \<open>int\<close> and a \<open>str\<close> raises \<open>TypeError\<close>.\<close>

fun tok_lt :: "token \<Rightarrow> token \<Rightarrow> exn + bool" where
  "tok_lt (TInt a) (TInt b) = Inr (a < b)"
| "tok_lt (TStr a) (TStr b) = Inr (str_lt a b)"
| "tok_lt (TInt a) (TStr b) = Inl TypeError"
| "tok_lt (TStr a) (TInt b) = Inl TypeError"

text \<open>
  Python's \<open><\<close> on lists: the first position where the items are not equal decides,
  by \<open><\<close> on those two items; if there is none, the shorter list is the smaller.
\<close>

fun key_lt :: "token list \<Rightarrow> token list \<Rightarrow> exn + bool" where
  "key_lt [] [] = Inr False"
| "key_lt [] (y # ys) = Inr True"
| "key_lt (x # xs) [] = Inr False"
| "key_lt (x # xs) (y # ys) = (if x = y then key_lt xs ys else tok_lt x y)"

text \<open>
  \<open>sorted(xs, key=k)\<close> is stable and compares keys with \<open><\<close> only; an exception of a
  comparison leaves \<open>sorted\<close>. It is modelled as a stable insertion sort: each element,
  in the order of the input, goes before the first element already placed whose key is
  greater than its own. Which comparisons are made depends on the algorithm, the outcome
  here does not: with natural sort keys a comparison raises for exactly the lists in which
  two identifiers mix (\<open>py_sorted_natural_iff\<close> below), and otherwise the result is the
  one stable sort (\<open>py_sorted_natural_is_stable_sort\<close>).
\<close>

fun insert_sorted :: "('a \<Rightarrow> token list) \<Rightarrow> 'a \<Rightarrow> 'a list \<Rightarrow> exn + 'a list" where
  "insert_sorted k x [] = Inr [x]"
| "insert_sorted k x (y # ys) =
     (case key_lt (k x) (k y) of
        Inl e \<Rightarrow> Inl e
      | Inr b \<Rightarrow>
          if b then Inr (x # y # ys)
          else (case insert_sorted k x ys of
                  Inl e \<Rightarrow> Inl e
                | Inr zs \<Rightarrow> Inr (y # zs)))"

fun sort_into :: "('a \<Rightarrow> token list) \<Rightarrow> 'a list \<Rightarrow> 'a list \<Rightarrow> exn + 'a list" where
  "sort_into k acc [] = Inr acc"
| "sort_into k acc (x # xs) =
     (case insert_sorted k x acc of
        Inl e \<Rightarrow> Inl e
      | Inr acc' \<Rightarrow> sort_into k acc' xs)"

definition py_sorted :: "('a \<Rightarrow> token list) \<Rightarrow> 'a list \<Rightarrow> exn + 'a list" where
  "py_sorted k xs = sort_into k [] xs"

section \<open>Path names\<close>

text \<open>
  \<open>Path.suffix\<close> and \<open>Path.stem\<close> of a file name: the last dot splits the name unless
  it is the first or the last character.
\<close>

definition rfind_dot :: "string \<Rightarrow> nat option" where
  "rfind_dot name =
     (if CHR ''.'' \<in> set name
      then Some (length name - 1 - length (takeWhile (\<lambda>c. c \<noteq> CHR ''.'') (rev name)))
      else None)"

definition suffix :: "string \<Rightarrow> string" where
  "suffix name =
     (case rfind_dot name of
        None \<Rightarrow> []
      | Some i \<Rightarrow> if 0 < i \<and> i < length name - 1 then drop i name else [])"

definition stem :: "string \<Rightarrow> string" where
  "stem name =
     (case rfind_dot name of
        None \<Rightarrow> name
      | Some i \<Rightarrow> if 0 < i \<and> i < length name - 1 then take i name else name)"

section \<open>Batch Orchestrator\<close>

text \<open>Python's \<open>sub in s\<close> on strings.\<close>

fun contains :: "string \<Rightarrow> string \<Rightarrow> bool" where
  "contains sub [] = (sub = [])"
| "contains sub (c # cs) = (take (length sub) (c # cs) = sub \<or> contains sub cs)"

text \<open>
  The inner function \<open>_exists\<close> of \<open>find_imagemagick_cmd\<close>: a launch that raises counts
  as a missing command.
\<close>

definition exists_cmd :: "tool \<Rightarrow> string \<Rightarrow> world \<Rightarrow> bool \<times> world" where
  "exists_cmd t cmd w =
     (case run t [cmd, ''-version''] w of
        (Inl e, w') \<Rightarrow> (False, w')
      | (Inr out, w') \<Rightarrow> (returncode out = 0, w'))"

definition find_imagemagick_cmd :: "tool \<Rightarrow> world \<Rightarrow> (string option \<times> string option) \<times> world" where
  "find_imagemagick_cmd t w =
     (case exists_cmd t ''magick'' w of
        (found_magick, w1) \<Rightarrow>
          if found_magick then ((Some ''magick'', Some ''magick''), w1)
          else
            (case exists_cmd t ''convert'' w1 of
               (found_convert, w2) \<Rightarrow>
                 if found_convert
                 then (case run t [''convert'', ''-version''] w2 of
                         (Inl e, w3) \<Rightarrow> ((None, None), w3)
                       | (Inr out, w3) \<Rightarrow>
                           if contains ''ImageMagick'' (stdout out @ stderr out)
                           then ((Some ''convert'', Some ''convert''), w3)
                           else ((None, None), w3))
                 else ((None, None), w2)))"

text \<open>The body of the \<open>try\<close> block of the loop of \<open>main\<close>, for one asset.\<close>

definition process_asset :: "tool \<Rightarrow> string \<Rightarrow> string option \<Rightarrow> path \<Rightarrow> world \<Rightarrow> (exn + unit) \<times> world" where
  "process_asset t im_cmd mode tiff w =
     (case combine_channels_if_needed t im_cmd mode tiff w of
        (Inl e, w1) \<Rightarrow> (Inl e, w1)
      | (Inr combined_path, w1) \<Rightarrow>
          (case lzw_compress_tiff_inplace t im_cmd mode combined_path w1 of
             (Inl e, w2) \<Rightarrow> (Inl e, w2)
           | (Inr temp_lzw, w2) \<Rightarrow>
               (case safe_replace tiff temp_lzw w2 of
                  (Inl e, w3) \<Rightarrow> (Inl e, w3)
                | (Inr u, w3) \<Rightarrow>
                    (let w4 = (if combined_path \<noteq> tiff \<and> exists_path combined_path w3
                               then try_unlink combined_path w3 else w3);
                         thumb_jpg = ''thumbs/'' @ stem tiff @ ''.jpg''
                     in make_thumbnail t im_cmd mode tiff thumb_jpg w4))))"

text \<open>
  The loop of \<open>main\<close> over the sorted assets: the base name is appended first, then the
  asset is processed, and \<open>except Exception\<close> drops whatever the processing raised.
\<close>

fun main_loop :: "tool \<Rightarrow> string \<Rightarrow> string option \<Rightarrow> path list \<Rightarrow> string list \<Rightarrow> world \<Rightarrow> string list \<times> world" where
  "main_loop t im_cmd mode [] basenames w = (basenames, w)"
| "main_loop t im_cmd mode (tiff # rest) basenames w =
     (let base = stem tiff;
          basenames' = basenames @ [base];
          w' = snd (process_asset t im_cmd mode tiff w)
      in main_loop t im_cmd mode rest basenames' w')"

text \<open>
  How the process ends: \<open>main\<close> returned (exit status 0), \<open>sys.exit(n)\<close>, or an
  exception that nothing caught (the interpreter prints it and exits with status 1).
\<close>

datatype outcome = Returned | Exited int | Uncaught exn

fun exit_status :: "outcome \<Rightarrow> int" where
  "exit_status Returned = 0"
| "exit_status (Exited n) = n"
| "exit_status (Uncaught e) = 1"

definition write_manifest :: "string list \<Rightarrow> world \<Rightarrow> outcome \<times> world" where
  "write_manifest basenames w =
     (case write_file ''manifest.json'' (Json_basenames basenames) w of
        (Inl e, w') \<Rightarrow> (Uncaught e, w')
      | (Inr u, w') \<Rightarrow> (Returned, w'))"

text \<open>
  The TIFF files of the working directory: every entry of the listing is a child of the
  working directory, so its parent is never the thumbnails directory.
\<close>

definition tiff_files :: "world \<Rightarrow> path list" where
  "tiff_files w =
     filter (\<lambda>p. exists_path p w \<and> lower (suffix p) \<in> set [''.tif'', ''.tiff'']) (listing w)"

definition main :: "tool \<Rightarrow> world \<Rightarrow> outcome \<times> world" where
  "main t w =
     (case mkdir_exist_ok ''thumbs'' w of
        (Inl e, w0) \<Rightarrow> (Uncaught e, w0)
      | (Inr u, w0) \<Rightarrow>
          (case find_imagemagick_cmd t w0 of
             ((im_cmd, mode), w1) \<Rightarrow>
               (case im_cmd of
                  None \<Rightarrow> (Exited 1, w1)
                | Some im \<Rightarrow>
                    if tiff_files w1 = [] then write_manifest [] w1
                    else
                      (case py_sorted (\<lambda>p. natural_sort_key (stem p)) (tiff_files w1) of
                         Inl e \<Rightarrow> (Uncaught e, w1)
                       | Inr sorted_tiffs \<Rightarrow>
                           (case main_loop t im mode sorted_tiffs [] w1 of
                              (basenames, w2) \<Rightarrow> write_manifest basenames w2)))))"

section \<open>Observations on a run\<close>

definition is_wrote :: "event \<Rightarrow> bool" where
  "is_wrote e = (case e of Wrote p c \<Rightarrow> True | Exec a \<Rightarrow> False)"

definition wrote_events :: "world \<Rightarrow> event list" where
  "wrote_events w = filter is_wrote (trace w)"

text \<open>
  \<open>evolves w w'\<close>: from \<open>w\<close> to \<open>w'\<close> the refusals and the listing are the same, the
  program wrote no file itself, and the trace only grew.
\<close>

definition evolves :: "world \<Rightarrow> world \<Rightarrow> bool" where
  "evolves w w' = (denied w' = denied w \<and> listing w' = listing w \<and>
                   wrote_events w' = wrote_events w \<and> (\<exists>es. trace w' = trace w @ es))"

text \<open>
  The items of a natural sort key alternate between \<open>int\<close> and \<open>str\<close>;
  \<open>alternates d k\<close> says so for the key \<open>k\<close>, with \<open>d\<close> telling whether an \<open>int\<close>
  comes first.
\<close>

fun alternates :: "bool \<Rightarrow> token list \<Rightarrow> bool" where
  "alternates d [] = True"
| "alternates d (TInt n # r) = (d \<and> alternates False r)"
| "alternates d (TStr s # r) = (\<not> d \<and> alternates True r)"

text \<open>Two identifiers mix when one starts with a digit and the other with a non-digit.\<close>

definition mixes :: "string \<Rightarrow> string \<Rightarrow> bool" where
  "mixes s t = (s \<noteq> [] \<and> t \<noteq> [] \<and> is_digit (hd s) \<noteq> is_digit (hd t))"

definition comparable :: "token list \<Rightarrow> token list \<Rightarrow> bool" where
  "comparable a b = (case key_lt a b of Inl e \<Rightarrow> False | Inr r \<Rightarrow> True)"

text \<open>
  The natural ordering as a linear order: a digit run ranks by its number, a text run by
  the code points of its lowercase form, and the ranks of two identifiers compare
  lexicographically. It orders identifiers that do not mix.
\<close>

definition token_rank :: "token \<Rightarrow> int \<times> nat list" where
  "token_rank tk = (case tk of TInt n \<Rightarrow> (n, []) | TStr s \<Rightarrow> (0, map of_char s))"

definition natural_rank :: "string \<Rightarrow> (int \<times> nat list) list" where
  "natural_rank s = map token_rank (natural_sort_key s)"

text \<open>Where the insertion puts \<open>x\<close>: behind the longest prefix that ranks no higher.\<close>

definition place :: "('a \<Rightarrow> 'b::linorder) \<Rightarrow> 'a \<Rightarrow> 'a list \<Rightarrow> 'a list" where
  "place g x ys = takeWhile (\<lambda>y. g y \<le> g x) ys @ x # dropWhile (\<lambda>y. g y \<le> g x) ys"

section \<open>Concrete tools and directories\<close>

definition no_denial :: "fs_op \<Rightarrow> bool" where
  "no_denial op = False"

definition deny_backup_unlink :: "fs_op \<Rightarrow> bool" where
  "deny_backup_unlink op = (op = Unlink ''a.tif.bak'')"

text \<open>A tool that always completes with return code 0 and prints the given texts.\<close>

definition tool_prints :: "string \<Rightarrow> string \<Rightarrow> tool" where
  "tool_prints out err args f = (Inr \<lparr>returncode = 0, stdout = out, stderr = err\<rparr>, f)"

text \<open>No tool is installed: every launch raises.\<close>

definition tool_missing :: tool where
  "tool_missing args f = (Inl FileNotFoundError, f)"

text \<open>
  A stand-in for ImageMagick: it reports its version, says that every image has one page,
  fails on every command that mentions a name containing \<open>bad\<close>, and otherwise writes
  its last argument.
\<close>

definition fake_magick :: "string \<Rightarrow> tool" where
  "fake_magick bad args f =
     (if ''-version'' \<in> set args
      then (Inr \<lparr>returncode = 0, stdout = ''Version: ImageMagick 7'', stderr = []\<rparr>, f)
      else if list_ex (contains bad) args
      then (Inr \<lparr>returncode = 1, stdout = [], stderr = ''corrupt image''\<rparr>, f)
      else if ''identify'' \<in> set args
      then (Inr \<lparr>returncode = 0, stdout = ''1'', stderr = []\<rparr>, f)
      else (Inr \<lparr>returncode = 0, stdout = [], stderr = []\<rparr>, f(last args \<mapsto> Bytes ''out'')))"

definition dir_ab :: world where
  "dir_ab = \<lparr>files = [''a.tif'' \<mapsto> Bytes ''A'', ''b.tif'' \<mapsto> Bytes ''B''],
             listing = [''b.tif'', ''a.tif''], denied = no_denial, trace = []\<rparr>"

definition dir_empty :: world where
  "dir_empty = \<lparr>files = [''notes.txt'' \<mapsto> Bytes ''n''],
                listing = [''notes.txt''], denied = no_denial, trace = []\<rparr>"

definition dir_same_stem :: world where
  "dir_same_stem = \<lparr>files = [''a.tif'' \<mapsto> Bytes ''A'', ''a.tiff'' \<mapsto> Bytes ''B''],
                    listing = [''a.tiff'', ''a.tif''], denied = no_denial, trace = []\<rparr>"

definition dir_mixed :: world where
  "dir_mixed = \<lparr>files = [''1a.tif'' \<mapsto> Bytes ''A'', ''a1.tif'' \<mapsto> Bytes ''B''],
                listing = [''1a.tif'', ''a1.tif''], denied = no_denial, trace = []\<rparr>"

definition dir_thumbs_is_file :: world where
  "dir_thumbs_is_file = \<lparr>files = [''a.tif'' \<mapsto> Bytes ''A'', ''thumbs'' \<mapsto> Bytes ''T''],
                         listing = [''a.tif'', ''thumbs''], denied = no_denial, trace = []\<rparr>"

text \<open>An asset and its compressed version, ready to be published.\<close>

definition publish_ready :: world where
  "publish_ready = \<lparr>files = [''a.tif'' \<mapsto> Bytes ''old'', ''a.tif.lzw.tmp.tif'' \<mapsto> Bytes ''new''],
                    listing = [''a.tif'', ''a.tif.lzw.tmp.tif''], denied = no_denial, trace = []\<rparr>"

definition publish_ready_locked :: world where
  "publish_ready_locked = publish_ready\<lparr>denied := deny_backup_unlink\<rparr>"

definition publish_no_newfile :: world where
  "publish_no_newfile = \<lparr>files = [''a.tif'' \<mapsto> Bytes ''old''],
                         listing = [''a.tif''], denied = no_denial, trace = []\<rparr>"

section \<open>Page Inspector: results\<close>

lemma run_cmd_ok:
  "run t args w = (Inr out, w') \<Longrightarrow> returncode out = 0 \<Longrightarrow> run_cmd t args w = (Inr out, w')"
  by (simp add: run_cmd_def)

lemma run_cmd_trace: "trace (snd (run_cmd t args w)) = trace w @ [Exec args]"
  by (auto simp: run_cmd_def run_def split: prod.splits sum.splits)

lemma identify_trace:
  "trace (snd (identify_num_pages t im_cmd p w)) = trace w @ [Exec (identify_args im_cmd p)]"
  using run_cmd_trace [of t "identify_args im_cmd p" w]
  by (auto simp: identify_num_pages_def Let_def split: prod.splits sum.splits option.splits)

lemma try_unlink_trace: "trace (try_unlink p w) = trace w"
  by (simp add: try_unlink_def unlink_def)

lemma run_tool_prints:
  "run (tool_prints out err) args w =
     (Inr \<lparr>returncode = 0, stdout = out, stderr = err\<rparr>,
      w\<lparr>files := files w, trace := trace w @ [Exec args]\<rparr>)"
  by (simp add: run_def tool_prints_def)

text \<open>
  Claim C5, as amended. When the query completes with return code 0, the page count is
  the integer that the chosen text parses to (whatever its value, also below 1), and
  exactly 1 when the text does not parse; when the query ends with another return code
  or cannot be launched, the Page Inspector raises.
\<close>

theorem identify_num_pages_parse_or_one:
  "(run t (identify_args im_cmd p) w = (Inr out, w') \<and> returncode out = 0 \<longrightarrow>
      (\<forall>n. py_int (py_or (strip (stdout out)) (strip (stderr out))) = Some n \<longrightarrow>
           identify_num_pages t im_cmd p w = (Inr n, w')) \<and>
      (py_int (py_or (strip (stdout out)) (strip (stderr out))) = None \<longrightarrow>
           identify_num_pages t im_cmd p w = (Inr 1, w'))) \<and>
   (run t (identify_args im_cmd p) w = (Inr out, w') \<and> returncode out \<noteq> 0 \<longrightarrow>
      (\<exists>e. identify_num_pages t im_cmd p w = (Inl e, w'))) \<and>
   (run t (identify_args im_cmd p) w = (Inl e, w') \<longrightarrow>
      identify_num_pages t im_cmd p w = (Inl e, w'))"
  by (auto simp: identify_num_pages_def run_cmd_def)

theorem identify_num_pages_parse_or_one_witness:
  "fst (identify_num_pages (tool_prints ''7'' []) ''magick'' ''a.tif'' dir_ab) = Inr 7 \<and>
   fst (identify_num_pages (tool_prints ''-2'' []) ''magick'' ''a.tif'' dir_ab) = Inr (- 2) \<and>
   fst (identify_num_pages (tool_prints ''three pages'' []) ''magick'' ''a.tif'' dir_ab) = Inr 1 \<and>
   (\<exists>e. fst (identify_num_pages (fake_magick ''a.tif'') ''magick'' ''a.tif'' dir_ab) = Inl e) \<and>
   fst (identify_num_pages tool_missing ''magick'' ''a.tif'' dir_ab) = Inl FileNotFoundError"
proof -
  let ?args = "identify_args ''magick'' ''a.tif''"
  let ?w' = "dir_ab\<lparr>files := files dir_ab, trace := trace dir_ab @ [Exec ?args]\<rparr>"
  have p7: "py_int (py_or (strip (stdout \<lparr>returncode = 0, stdout = ''7'', stderr = []\<rparr>))
                      (strip (stderr \<lparr>returncode = 0, stdout = ''7'', stderr = []\<rparr>))) = Some 7"
    by code_simp
  have pm: "py_int (py_or (strip (stdout \<lparr>returncode = 0, stdout = ''-2'', stderr = []\<rparr>))
                      (strip (stderr \<lparr>returncode = 0, stdout = ''-2'', stderr = []\<rparr>))) = Some (- 2)"
    by code_simp
  have pn: "py_int (py_or (strip (stdout \<lparr>returncode = 0, stdout = ''three pages'', stderr = []\<rparr>))
                      (strip (stderr \<lparr>returncode = 0, stdout = ''three pages'', stderr = []\<rparr>))) = None"
    by code_simp
  have a: "identify_num_pages (tool_prints ''7'' []) ''magick'' ''a.tif'' dir_ab = (Inr 7, ?w')"
    using identify_num_pages_parse_or_one
      [of "tool_prints ''7'' []" "''magick''" "''a.tif''" dir_ab
          "\<lparr>returncode = 0, stdout = ''7'', stderr = []\<rparr>" ?w']
      run_tool_prints [of "''7''" "[]" ?args dir_ab] p7
    by (simp del: One_nat_def)
  have b: "identify_num_pages (tool_prints ''-2'' []) ''magick'' ''a.tif'' dir_ab = (Inr (- 2), ?w')"
    using identify_num_pages_parse_or_one
      [of "tool_prints ''-2'' []" "''magick''" "''a.tif''" dir_ab
          "\<lparr>returncode = 0, stdout = ''-2'', stderr = []\<rparr>" ?w']
      run_tool_prints [of "''-2''" "[]" ?args dir_ab] pm
    by simp
  have c: "identify_num_pages (tool_prints ''three pages'' []) ''magick'' ''a.tif'' dir_ab = (Inr 1, ?w')"
    using identify_num_pages_parse_or_one
      [of "tool_prints ''three pages'' []" "''magick''" "''a.tif''" dir_ab
          "\<lparr>returncode = 0, stdout = ''three pages'', stderr = []\<rparr>" ?w']
      run_tool_prints [of "''three pages''" "[]" ?args dir_ab] pn
    by simp
  let ?bad = "\<lparr>returncode = 1, stdout = [], stderr = ''corrupt image''\<rparr>"
  have rb: "run (fake_magick ''a.tif'') ?args dir_ab = (Inr ?bad, ?w')"
    by (simp add: run_def fake_magick_def identify_args_def)
  have d: "\<exists>e. identify_num_pages (fake_magick ''a.tif'') ''magick'' ''a.tif'' dir_ab = (Inl e, ?w')"
    using identify_num_pages_parse_or_one
      [of "fake_magick ''a.tif''" "''magick''" "''a.tif''" dir_ab ?bad ?w'] rb
    by simp
  have rm: "run tool_missing ?args dir_ab = (Inl FileNotFoundError, ?w')"
    by (simp add: run_def tool_missing_def)
  have e: "identify_num_pages tool_missing ''magick'' ''a.tif'' dir_ab = (Inl FileNotFoundError, ?w')"
    using identify_num_pages_parse_or_one
      [of tool_missing "''magick''" "''a.tif''" dir_ab _ ?w' FileNotFoundError] rm
    by simp
  from a b c d e show ?thesis by auto
qed

text \<open>
  Claim C5 as stated fails: a query that prints \<open>0\<close> gives the page count 0, which is
  below 1.
\<close>

theorem page_count_zero_counterexample:
  "fst (identify_num_pages (tool_prints ''0'' []) ''magick'' ''a.tif'' dir_ab) = Inr 0 \<and> \<not> (1::int) \<le> 0"
  by code_simp


text \<open>
  Claim C9. When the query exits with status 0 and its standard output is empty (after
  stripping), the page count is read from its standard error alone: the integer it parses
  to, or 1 when it does not parse. When the standard output is not empty the page count
  is read from the standard output alone, whatever the standard error holds: the integer
  it parses to, or 1 when it does not parse, also when the standard error would parse.
\<close>

theorem identify_num_pages_stream_precedence:
  assumes "run t (identify_args im_cmd p) w = (Inr out, w')" and "returncode out = 0"
  shows "(strip (stdout out) = [] \<longrightarrow>
            (\<forall>n. py_int (strip (stderr out)) = Some n \<longrightarrow>
                 identify_num_pages t im_cmd p w = (Inr n, w')) \<and>
            (py_int (strip (stderr out)) = None \<longrightarrow>
                 identify_num_pages t im_cmd p w = (Inr 1, w'))) \<and>
         (strip (stdout out) \<noteq> [] \<longrightarrow>
            (\<forall>n. py_int (strip (stdout out)) = Some n \<longrightarrow>
                 identify_num_pages t im_cmd p w = (Inr n, w')) \<and>
            (py_int (strip (stdout out)) = None \<longrightarrow>
                 identify_num_pages t im_cmd p w = (Inr 1, w')))"
  using assms by (simp add: identify_num_pages_def run_cmd_ok py_or_def)

theorem identify_num_pages_stream_precedence_witness:
  "fst (identify_num_pages (tool_prints [] ''3'') ''magick'' ''a.tif'' dir_ab) = Inr 3 \<and>
   fst (identify_num_pages (tool_prints ''2'' ''3'') ''convert'' ''a.tif'' dir_ab) = Inr 2 \<and>
   fst (identify_num_pages (tool_prints ''x'' ''3'') ''magick'' ''a.tif'' dir_ab) = Inr 1 \<and>
   fst (identify_num_pages (tool_prints [] ''x'') ''magick'' ''a.tif'' dir_ab) = Inr 1"
proof -
  let ?a1 = "identify_args ''magick'' ''a.tif''"
  let ?a2 = "identify_args ''convert'' ''a.tif''"
  let ?o1 = "\<lparr>returncode = 0, stdout = [], stderr = ''3''\<rparr>"
  let ?o2 = "\<lparr>returncode = 0, stdout = ''2'', stderr = ''3''\<rparr>"
  let ?o3 = "\<lparr>returncode = 0, stdout = ''x'', stderr = ''3''\<rparr>"
  let ?o4 = "\<lparr>returncode = 0, stdout = [], stderr = ''x''\<rparr>"
  let ?w1 = "dir_ab\<lparr>files := files dir_ab, trace := trace dir_ab @ [Exec ?a1]\<rparr>"
  let ?w2 = "dir_ab\<lparr>files := files dir_ab, trace := trace dir_ab @ [Exec ?a2]\<rparr>"
  have r1: "run (tool_prints [] ''3'') ?a1 dir_ab = (Inr ?o1, ?w1)" by (rule run_tool_prints)
  have r2: "run (tool_prints ''2'' ''3'') ?a2 dir_ab = (Inr ?o2, ?w2)" by (rule run_tool_prints)
  have r3: "run (tool_prints ''x'' ''3'') ?a1 dir_ab = (Inr ?o3, ?w1)" by (rule run_tool_prints)
  have r4: "run (tool_prints [] ''x'') ?a1 dir_ab = (Inr ?o4, ?w1)" by (rule run_tool_prints)
  have c1: "returncode ?o1 = 0" and c2: "returncode ?o2 = 0"
    and c3: "returncode ?o3 = 0" and c4: "returncode ?o4 = 0" by simp_all
  have e1: "strip (stdout ?o1) = []" by code_simp
  have e2: "strip (stdout ?o2) \<noteq> []" by code_simp
  have e3: "strip (stdout ?o3) \<noteq> []" by code_simp
  have e4: "strip (stdout ?o4) = []" by code_simp
  have p1: "py_int (strip (stderr ?o1)) = Some 3" by code_simp
  have p2: "py_int (strip (stdout ?o2)) = Some 2" by code_simp
  have p3: "py_int (strip (stdout ?o3)) = None" by code_simp
  have p4: "py_int (strip (stderr ?o4)) = None" by code_simp
  have "identify_num_pages (tool_prints [] ''3'') ''magick'' ''a.tif'' dir_ab = (Inr 3, ?w1)"
    using identify_num_pages_stream_precedence [OF r1 c1] e1 p1 by blast
  moreover have "identify_num_pages (tool_prints ''2'' ''3'') ''convert'' ''a.tif'' dir_ab = (Inr 2, ?w2)"
    using identify_num_pages_stream_precedence [OF r2 c2] e2 p2 by blast
  moreover have "identify_num_pages (tool_prints ''x'' ''3'') ''magick'' ''a.tif'' dir_ab = (Inr 1, ?w1)"
    using identify_num_pages_stream_precedence [OF r3 c3] e3 p3 by blast
  moreover have "identify_num_pages (tool_prints [] ''x'') ''magick'' ''a.tif'' dir_ab = (Inr 1, ?w1)"
    using identify_num_pages_stream_precedence [OF r4 c4] e4 p4 by blast
  ultimately show ?thesis by simp
qed

section \<open>Channel Compositor: results\<close>

text \<open>
  Claim C4. For an asset whose page count is at most 1, the compositor returns the asset's
  own path, and the state it leaves is the one the page-count query left: it launches no
  further command and touches no file, so no artifact is created.
\<close>

theorem combine_single_page_passthrough:
  assumes "identify_num_pages t im_cmd in_path w = (Inr n, w1)" and "n \<le> 1"
  shows "combine_channels_if_needed t im_cmd mode in_path w = (Inr in_path, w1) \<and>
         files w1 = files (snd (run t (identify_args im_cmd in_path) w)) \<and>
         trace w1 = trace w @ [Exec (identify_args im_cmd in_path)]"
proof -
  have "combine_channels_if_needed t im_cmd mode in_path w = (Inr in_path, w1)"
    using assms by (simp add: combine_channels_if_needed_def)
  moreover have "trace w1 = trace w @ [Exec (identify_args im_cmd in_path)]"
    using identify_trace [of t im_cmd in_path w] assms(1) by simp
  moreover have "files w1 = files (snd (run t (identify_args im_cmd in_path) w))"
    using assms(1)
    by (auto simp: identify_num_pages_def run_cmd_def Let_def
        split: prod.splits sum.splits option.splits if_splits)
  ultimately show ?thesis by simp
qed

theorem combine_single_page_passthrough_witness:
  "fst (combine_channels_if_needed (tool_prints ''1'' []) ''magick'' (Some ''magick'') ''a.tif'' dir_ab)
     = Inr ''a.tif'' \<and>
   files (snd (combine_channels_if_needed (tool_prints ''1'' []) ''magick'' (Some ''magick'') ''a.tif'' dir_ab))
     ''a.tif.rgb.tmp.tif'' = None \<and>
   trace (snd (combine_channels_if_needed (tool_prints ''1'' []) ''magick'' (Some ''magick'') ''a.tif'' dir_ab))
     = [Exec [''magick'', ''identify'', ''-format'', ''%n'', ''a.tif'']]"
proof -
  let ?t = "tool_prints ''1'' []"
  let ?w1 = "snd (identify_num_pages ?t ''magick'' ''a.tif'' dir_ab)"
  have "fst (identify_num_pages ?t ''magick'' ''a.tif'' dir_ab) = Inr 1" by code_simp
  then have i: "identify_num_pages ?t ''magick'' ''a.tif'' dir_ab = (Inr 1, ?w1)"
    by (simp add: prod_eq_iff)
  have f: "files (snd (run ?t (identify_args ''magick'' ''a.tif'') dir_ab)) ''a.tif.rgb.tmp.tif'' = None"
    by code_simp
  have tr: "trace dir_ab @ [Exec (identify_args ''magick'' ''a.tif'')]
              = [Exec [''magick'', ''identify'', ''-format'', ''%n'', ''a.tif'']]"
    by code_simp
  from combine_single_page_passthrough [OF i, of "Some ''magick''"] f tr
  show ?thesis by simp
qed

text \<open>
  Claim C3. For a page count of exactly 2 the compositor launches one command whose
  operands, in the order Red, Green, Blue of \<open>-combine\<close>, are page 0, page 1 and page 1
  again; for a page count of 3 or more they are pages 0, 1 and 2, and no other page is
  named. When the command succeeds the result is the temporary composite path.
\<close>

theorem combine_channel_pages:
  assumes "identify_num_pages t im_cmd in_path w = (Inr n, w1)"
  shows "(n = 2 \<longrightarrow>
            trace (snd (combine_channels_if_needed t im_cmd mode in_path w)) =
              trace w1 @ [Exec [im_cmd, in_path @ ''[0]'', in_path @ ''[1]'', in_path @ ''[1]'',
                                ''-combine'', in_path @ ''.rgb.tmp.tif'']]) \<and>
         (n \<ge> 3 \<longrightarrow>
            trace (snd (combine_channels_if_needed t im_cmd mode in_path w)) =
              trace w1 @ [Exec [im_cmd, in_path @ ''[0]'', in_path @ ''[1]'', in_path @ ''[2]'',
                                ''-combine'', in_path @ ''.rgb.tmp.tif'']]) \<and>
         (n \<ge> 2 \<longrightarrow>
            (\<forall>r. fst (combine_channels_if_needed t im_cmd mode in_path w) = Inr r \<longrightarrow>
                 r = in_path @ ''.rgb.tmp.tif''))"
  using assms
  by (auto simp: combine_channels_if_needed_def Let_def combine_args_def add_suffix_def
        run_cmd_trace try_unlink_trace split: prod.splits sum.splits
        dest: arg_cong [where f = "\<lambda>x. trace (snd x)"])

theorem combine_channel_pages_witness:
  "trace (snd (combine_channels_if_needed (tool_prints ''2'' []) ''magick'' (Some ''magick'') ''a.tif'' dir_ab))
     = [Exec [''magick'', ''identify'', ''-format'', ''%n'', ''a.tif''],
        Exec [''magick'', ''a.tif[0]'', ''a.tif[1]'', ''a.tif[1]'', ''-combine'', ''a.tif.rgb.tmp.tif'']] \<and>
   trace (snd (combine_channels_if_needed (tool_prints ''5'' []) ''convert'' (Some ''convert'') ''a.tif'' dir_ab))
     = [Exec [''convert'', ''a.tif'', ''-format'', ''%n'', ''info:''],
        Exec [''convert'', ''a.tif[0]'', ''a.tif[1]'', ''a.tif[2]'', ''-combine'', ''a.tif.rgb.tmp.tif'']] \<and>
   fst (combine_channels_if_needed (tool_prints ''2'' []) ''magick'' (Some ''magick'') ''a.tif'' dir_ab)
     = Inr ''a.tif.rgb.tmp.tif''"
proof -
  let ?t2 = "tool_prints ''2'' []" and ?t5 = "tool_prints ''5'' []"
  let ?w2 = "snd (identify_num_pages ?t2 ''magick'' ''a.tif'' dir_ab)"
  let ?w5 = "snd (identify_num_pages ?t5 ''convert'' ''a.tif'' dir_ab)"
  have "fst (identify_num_pages ?t2 ''magick'' ''a.tif'' dir_ab) = Inr 2" by code_simp
  then have i2: "identify_num_pages ?t2 ''magick'' ''a.tif'' dir_ab = (Inr 2, ?w2)"
    by (simp add: prod_eq_iff)
  have "fst (identify_num_pages ?t5 ''convert'' ''a.tif'' dir_ab) = Inr 5" by code_simp
  then have i5: "identify_num_pages ?t5 ''convert'' ''a.tif'' dir_ab = (Inr 5, ?w5)"
    by (simp add: prod_eq_iff)
  have t2: "trace ?w2 = [Exec [''magick'', ''identify'', ''-format'', ''%n'', ''a.tif'']]"
    by code_simp
  have t5: "trace ?w5 = [Exec [''convert'', ''a.tif'', ''-format'', ''%n'', ''info:'']]"
    by code_simp
  have ok: "fst (combine_channels_if_needed ?t2 ''magick'' (Some ''magick'') ''a.tif'' dir_ab)
              = Inr ''a.tif.rgb.tmp.tif''"
    by code_simp
  from combine_channel_pages [OF i2, of "Some ''magick''"] combine_channel_pages [OF i5, of "Some ''convert''"]
    t2 t5 ok
  show ?thesis by auto
qed

section \<open>Atomic Publisher: results\<close>

lemmas publisher_defs = safe_replace_def publish_step3_def os_replace_def try_unlink_def
  unlink_def exists_path_def add_suffix_def Let_def

text \<open>
  Claim C1, as amended. (1) When \<open>safe_replace\<close> completes without raising, and the new
  content is not at the backup path itself, the new content existed, the original path
  holds it afterwards, and no backup remains unless the operating system refuses to delete
  it. (2) When the original existed and was moved to the backup, and the rename of the
  new content onto the original then fails, \<open>safe_replace\<close> raises and leaves the
  original absent and the backup holding the old content. (3) When both renames are
  possible the call completes and the original holds the new content, also when the
  backup cannot be deleted; that backup then stays, holding the old content.
\<close>

theorem safe_replace_publish:
  "(safe_replace original newfile w = (Inr (), w') \<and> newfile \<noteq> original @ ''.bak'' \<longrightarrow>
      files w newfile \<noteq> None \<and> files w' original = files w newfile \<and>
      (files w' (original @ ''.bak'') = None \<or> denied w (Unlink (original @ ''.bak'')))) \<and>
   (files w original = Some c \<and> \<not> denied w (Replace original (original @ ''.bak'')) \<and>
    (denied w (Replace newfile original) \<or>
     (files w newfile = None \<and> newfile \<noteq> original @ ''.bak'')) \<longrightarrow>
      (\<exists>e w2. safe_replace original newfile w = (Inl e, w2) \<and>
         files w2 original = None \<and> files w2 (original @ ''.bak'') = Some c)) \<and>
   (files w newfile = Some d \<and> newfile \<noteq> original \<and> newfile \<noteq> original @ ''.bak'' \<and>
    \<not> denied w (Replace original (original @ ''.bak'')) \<and>
    \<not> denied w (Replace newfile original) \<longrightarrow>
      (\<exists>w3. safe_replace original newfile w = (Inr (), w3) \<and> files w3 original = Some d \<and>
         (denied w (Unlink (original @ ''.bak'')) \<and> files w original \<noteq> None \<longrightarrow>
            files w3 (original @ ''.bak'') = files w original)))"
  apply (intro conjI impI)
  subgoal by (auto simp: publisher_defs split: option.splits if_splits prod.splits sum.splits)
  subgoal by (auto simp: publisher_defs split: option.splits if_splits prod.splits sum.splits)
  subgoal by (auto simp: publisher_defs split: option.splits if_splits prod.splits sum.splits)
  subgoal by (auto simp: publisher_defs split: option.splits if_splits prod.splits sum.splits)
  subgoal by (auto simp: publisher_defs split: option.splits if_splits prod.splits sum.splits)
  done

theorem safe_replace_publish_witness:
  "fst (safe_replace ''a.tif'' ''a.tif.lzw.tmp.tif'' publish_ready) = Inr () \<and>
   files (snd (safe_replace ''a.tif'' ''a.tif.lzw.tmp.tif'' publish_ready)) ''a.tif'' = Some (Bytes ''new'') \<and>
   files (snd (safe_replace ''a.tif'' ''a.tif.lzw.tmp.tif'' publish_ready)) ''a.tif.bak'' = None \<and>
   (\<exists>e. fst (safe_replace ''a.tif'' ''a.tif.lzw.tmp.tif'' publish_no_newfile) = Inl e) \<and>
   files (snd (safe_replace ''a.tif'' ''a.tif.lzw.tmp.tif'' publish_no_newfile)) ''a.tif'' = None \<and>
   files (snd (safe_replace ''a.tif'' ''a.tif.lzw.tmp.tif'' publish_no_newfile)) ''a.tif.bak''
     = Some (Bytes ''old'') \<and>
   fst (safe_replace ''a.tif'' ''a.tif.lzw.tmp.tif'' publish_ready_locked) = Inr () \<and>
   files (snd (safe_replace ''a.tif'' ''a.tif.lzw.tmp.tif'' publish_ready_locked)) ''a.tif''
     = Some (Bytes ''new'') \<and>
   files (snd (safe_replace ''a.tif'' ''a.tif.lzw.tmp.tif'' publish_ready_locked)) ''a.tif.bak''
     = Some (Bytes ''old'')"
proof -
  let ?o = "''a.tif''" and ?n = "''a.tif.lzw.tmp.tif''"
  let ?r1 = "safe_replace ?o ?n publish_ready"
  have bk: "?o @ ''.bak'' = ''a.tif.bak''" by simp
  have ne: "?n \<noteq> ?o @ ''.bak''" "?n \<noteq> ?o" by simp_all
  \<comment> \<open>part 1: a completed call\<close>
  have "fst ?r1 = Inr ()" by code_simp
  then have c1: "?r1 = (Inr (), snd ?r1)" by (simp add: prod_eq_iff)
  have n1: "files publish_ready ?n = Some (Bytes ''new'')" by code_simp
  have d1: "\<not> denied publish_ready (Unlink ''a.tif.bak'')" by code_simp
  have p1: "files (snd ?r1) ?o = Some (Bytes ''new'') \<and> files (snd ?r1) ''a.tif.bak'' = None"
    using safe_replace_publish [of ?o ?n publish_ready "snd ?r1"] c1 ne n1 d1 bk by simp
  \<comment> \<open>part 2: the second rename fails because the new content is missing\<close>
  have o2: "files publish_no_newfile ?o = Some (Bytes ''old'')" by code_simp
  have n2: "files publish_no_newfile ?n = None" by code_simp
  have d2: "\<not> denied publish_no_newfile (Replace ?o (?o @ ''.bak''))" by code_simp
  have p2: "\<exists>e w2. safe_replace ?o ?n publish_no_newfile = (Inl e, w2) \<and>
              files w2 ?o = None \<and> files w2 ''a.tif.bak'' = Some (Bytes ''old'')"
    using safe_replace_publish [of ?o ?n publish_no_newfile _ "Bytes ''old''"] o2 n2 d2 ne bk
    by simp
  \<comment> \<open>part 3: the backup cannot be deleted\<close>
  have o3: "files publish_ready_locked ?o = Some (Bytes ''old'')" by code_simp
  have n3: "files publish_ready_locked ?n = Some (Bytes ''new'')" by code_simp
  have d3: "\<not> denied publish_ready_locked (Replace ?o (?o @ ''.bak''))"
       "\<not> denied publish_ready_locked (Replace ?n ?o)"
       "denied publish_ready_locked (Unlink (?o @ ''.bak''))" by code_simp+
  have p3: "\<exists>w3. safe_replace ?o ?n publish_ready_locked = (Inr (), w3) \<and>
              files w3 ?o = Some (Bytes ''new'') \<and> files w3 ''a.tif.bak'' = Some (Bytes ''old'')"
    using safe_replace_publish [of ?o ?n publish_ready_locked _ _ "Bytes ''new''"] o3 n3 d3 ne bk
    by simp
  from \<open>fst ?r1 = Inr ()\<close> p1 p2 p3 show ?thesis by auto
qed

text \<open>
  Claim C1 as stated fails: a call that completes without raising can leave the backup
  file behind, namely when the operating system refuses to delete it.
\<close>

theorem safe_replace_backup_remains_counterexample:
  "fst (safe_replace ''a.tif'' ''a.tif.lzw.tmp.tif'' publish_ready_locked) = Inr () \<and>
   files (snd (safe_replace ''a.tif'' ''a.tif.lzw.tmp.tif'' publish_ready_locked)) ''a.tif.bak''
     = Some (Bytes ''old'')"
  by code_simp

section \<open>Natural sort: when the comparison of two keys raises\<close>

lemma tokens_Nil: "tokens [] = []"
  by (subst tokens.simps) simp

lemma tokens_digit:
  "s \<noteq> [] \<Longrightarrow> is_digit (hd s) \<Longrightarrow>
     tokens s = takeWhile is_digit s # tokens (dropWhile is_digit s)"
  by (subst tokens.simps) simp

lemma tokens_nondigit:
  "s \<noteq> [] \<Longrightarrow> \<not> is_digit (hd s) \<Longrightarrow>
     tokens s = takeWhile (\<lambda>c. \<not> is_digit c) s # tokens (dropWhile (\<lambda>c. \<not> is_digit c) s)"
  by (subst tokens.simps) simp

lemma isdigit_takeWhile:
  "s \<noteq> [] \<Longrightarrow> is_digit (hd s) \<Longrightarrow> isdigit (takeWhile is_digit s)"
  by (cases s) (auto simp: isdigit_def list_all_iff dest: set_takeWhileD)

lemma not_isdigit_takeWhile:
  "s \<noteq> [] \<Longrightarrow> \<not> is_digit (hd s) \<Longrightarrow> \<not> isdigit (takeWhile (\<lambda>c. \<not> is_digit c) s)"
  by (cases s) (auto simp: isdigit_def)

lemma natural_sort_key_Nil: "natural_sort_key [] = []"
  by (simp add: natural_sort_key_def tokens_Nil)

lemma natural_sort_key_digit:
  "s \<noteq> [] \<Longrightarrow> is_digit (hd s) \<Longrightarrow>
     natural_sort_key s =
       TInt (int (digits_val (takeWhile is_digit s))) # natural_sort_key (dropWhile is_digit s)"
  by (simp add: natural_sort_key_def tokens_digit isdigit_takeWhile)

lemma natural_sort_key_nondigit:
  "s \<noteq> [] \<Longrightarrow> \<not> is_digit (hd s) \<Longrightarrow>
     natural_sort_key s =
       TStr (lower (takeWhile (\<lambda>c. \<not> is_digit c) s))
         # natural_sort_key (dropWhile (\<lambda>c. \<not> is_digit c) s)"
  by (simp add: natural_sort_key_def tokens_nondigit not_isdigit_takeWhile)

lemma natural_sort_key_eq_Nil: "natural_sort_key s = [] \<longleftrightarrow> s = []"
  by (cases "s = []"; cases "is_digit (hd s)")
     (simp_all add: natural_sort_key_Nil natural_sort_key_digit natural_sort_key_nondigit)

lemma natural_sort_key_alternates:
  "alternates (s \<noteq> [] \<and> is_digit (hd s)) (natural_sort_key s)"
proof (induction s rule: tokens.induct)
  case (1 s)
  show ?case
  proof (cases "s = []")
    case True
    then show ?thesis by (simp add: natural_sort_key_Nil)
  next
    case ne: False
    show ?thesis
    proof (cases "is_digit (hd s)")
      case True
      let ?r = "dropWhile is_digit s"
      have "?r \<noteq> [] \<longrightarrow> \<not> is_digit (hd ?r)" by (simp add: hd_dropWhile)
      then have "alternates False (natural_sort_key ?r)"
        using "1.IH"(1) [OF ne True] by auto
      then show ?thesis using ne True by (simp add: natural_sort_key_digit)
    next
      case False
      let ?r = "dropWhile (\<lambda>c. \<not> is_digit c) s"
      have "?r \<noteq> [] \<longrightarrow> is_digit (hd ?r)"
        using hd_dropWhile [of "\<lambda>c. \<not> is_digit c" s] by auto
      have "alternates True (natural_sort_key ?r)"
      proof (cases "?r = []")
        case True
        then have "natural_sort_key ?r = []" by (simp only: natural_sort_key_Nil)
        then show ?thesis by (simp only: alternates.simps)
      next
        case nr: False
        with \<open>?r \<noteq> [] \<longrightarrow> is_digit (hd ?r)\<close> have "?r \<noteq> [] \<and> is_digit (hd ?r)" by blast
        with "1.IH"(2) [OF ne False] show ?thesis by (simp only: simp_thms)
      qed
      then show ?thesis using ne False by (simp add: natural_sort_key_nondigit)
    qed
  qed
qed

lemma key_lt_alternates_same:
  "alternates d a \<Longrightarrow> alternates d b \<Longrightarrow> \<exists>r. key_lt a b = Inr r"
proof (induction a b arbitrary: d rule: key_lt.induct)
  case (4 x xs y ys)
  then show ?case by (cases x; cases y) auto
qed auto

lemma key_lt_alternates_differ:
  "alternates d a \<Longrightarrow> alternates (\<not> d) b \<Longrightarrow> a \<noteq> [] \<Longrightarrow> b \<noteq> [] \<Longrightarrow> key_lt a b = Inl TypeError"
  by (cases a; cases b; cases "hd a"; cases "hd b") auto

lemma key_lt_raises_TypeError: "key_lt a b = Inl e \<Longrightarrow> e = TypeError"
proof (induction a b rule: key_lt.induct)
  case (4 x xs y ys)
  then show ?case by (cases x; cases y) (auto split: if_splits)
qed simp_all

lemma key_lt_True_nonempty: "key_lt a b = Inr True \<Longrightarrow> b \<noteq> []"
  by (cases a; cases b) auto

lemma key_lt_natural_mixes:
  "mixes s t \<Longrightarrow> key_lt (natural_sort_key s) (natural_sort_key t) = Inl TypeError"
  using natural_sort_key_alternates [of s] natural_sort_key_alternates [of t]
    key_lt_alternates_differ [of "is_digit (hd s)" "natural_sort_key s" "natural_sort_key t"]
  by (auto simp: mixes_def natural_sort_key_eq_Nil)

lemma key_lt_natural_not_mixes:
  assumes "\<not> mixes s t"
  shows "\<exists>r. key_lt (natural_sort_key s) (natural_sort_key t) = Inr r"
proof (cases "s = [] \<or> t = []")
  case True
  then show ?thesis
    by (cases "natural_sort_key s"; cases "natural_sort_key t") (auto simp: natural_sort_key_Nil)
next
  case False
  with assms have "is_digit (hd s) = is_digit (hd t)" by (simp add: mixes_def)
  with False show ?thesis
    using natural_sort_key_alternates [of s] natural_sort_key_alternates [of t]
      key_lt_alternates_same [of "is_digit (hd s)" "natural_sort_key s" "natural_sort_key t"]
    by auto
qed

lemma comparable_natural_iff:
  "comparable (natural_sort_key s) (natural_sort_key t) \<longleftrightarrow> \<not> mixes s t"
proof (cases "mixes s t")
  case True
  then show ?thesis using key_lt_natural_mixes [of s t] by (simp add: comparable_def)
next
  case False
  then show ?thesis using key_lt_natural_not_mixes [of s t] by (auto simp: comparable_def)
qed

lemma mixes_sym: "mixes s t \<longleftrightarrow> mixes t s"
  by (auto simp: mixes_def)

lemma not_mixes_trans:
  "\<not> mixes a b \<Longrightarrow> \<not> mixes b c \<Longrightarrow> b \<noteq> [] \<Longrightarrow> \<not> mixes a c"
  by (auto simp: mixes_def)

subsection \<open>The insertion sort raises exactly when two identifiers mix\<close>

lemma insert_sorted_Cons_Inr:
  assumes "insert_sorted k x (y # ys) = Inr zs"
  shows "(key_lt (k x) (k y) = Inr True \<and> zs = x # y # ys) \<or>
         (key_lt (k x) (k y) = Inr False \<and> (\<exists>zs'. insert_sorted k x ys = Inr zs' \<and> zs = y # zs'))"
proof (cases "key_lt (k x) (k y)")
  case (Inl e)
  with assms show ?thesis by simp
next
  case (Inr b)
  show ?thesis
  proof (cases b)
    case True
    with Inr assms show ?thesis by simp
  next
    case False
    show ?thesis
    proof (cases "insert_sorted k x ys")
      case (Inl e)
      with Inr False assms show ?thesis by simp
    next
      case r: (Inr zs')
      with Inr False assms show ?thesis by simp
    qed
  qed
qed

lemma insert_sorted_Cons_Inl:
  assumes "insert_sorted k x (y # ys) = Inl e"
  shows "key_lt (k x) (k y) = Inl e \<or>
         (key_lt (k x) (k y) = Inr False \<and> insert_sorted k x ys = Inl e)"
proof (cases "key_lt (k x) (k y)")
  case (Inl e')
  with assms show ?thesis by simp
next
  case (Inr b)
  show ?thesis
  proof (cases b)
    case True
    with Inr assms show ?thesis by simp
  next
    case False
    show ?thesis
    proof (cases "insert_sorted k x ys")
      case (Inl e')
      with Inr False assms show ?thesis by simp
    next
      case r: (Inr zs')
      with Inr False assms show ?thesis by simp
    qed
  qed
qed

lemma sort_into_Cons_Inr:
  assumes "sort_into k acc (x # xs) = Inr r"
  shows "\<exists>acc'. insert_sorted k x acc = Inr acc' \<and> sort_into k acc' xs = Inr r"
proof (cases "insert_sorted k x acc")
  case (Inl e)
  with assms show ?thesis by simp
next
  case (Inr acc')
  with assms show ?thesis by simp
qed

lemma sort_into_Cons_Inl:
  assumes "sort_into k acc (x # xs) = Inl e"
  shows "insert_sorted k x acc = Inl e \<or>
         (\<exists>acc'. insert_sorted k x acc = Inr acc' \<and> sort_into k acc' xs = Inl e)"
proof (cases "insert_sorted k x acc")
  case (Inl e')
  with assms show ?thesis by simp
next
  case (Inr acc')
  with assms show ?thesis by simp
qed

lemma insert_sorted_set:
  "insert_sorted k x ys = Inr zs \<Longrightarrow> set zs = insert x (set ys)"
proof (induction ys arbitrary: zs)
  case Nil
  then show ?case by auto
next
  case (Cons y ys)
  from insert_sorted_Cons_Inr [OF Cons.prems] show ?case
  proof
    assume "key_lt (k x) (k y) = Inr True \<and> zs = x # y # ys"
    then show ?thesis by auto
  next
    assume "key_lt (k x) (k y) = Inr False \<and> (\<exists>zs'. insert_sorted k x ys = Inr zs' \<and> zs = y # zs')"
    then obtain zs' where r: "insert_sorted k x ys = Inr zs'" and z: "zs = y # zs'" by blast
    from Cons.IH [OF r] z show ?thesis by auto
  qed
qed

lemma insert_sorted_mset:
  "insert_sorted k x ys = Inr zs \<Longrightarrow> mset zs = add_mset x (mset ys)"
proof (induction ys arbitrary: zs)
  case Nil
  then show ?case by auto
next
  case (Cons y ys)
  from insert_sorted_Cons_Inr [OF Cons.prems] show ?case
  proof
    assume "key_lt (k x) (k y) = Inr True \<and> zs = x # y # ys"
    then show ?thesis by simp
  next
    assume "key_lt (k x) (k y) = Inr False \<and> (\<exists>zs'. insert_sorted k x ys = Inr zs' \<and> zs = y # zs')"
    then obtain zs' where r: "insert_sorted k x ys = Inr zs'" and z: "zs = y # zs'" by blast
    from Cons.IH [OF r] z show ?thesis by simp
  qed
qed

lemma insert_sorted_raises_TypeError:
  "insert_sorted k x ys = Inl e \<Longrightarrow> e = TypeError"
proof (induction ys)
  case Nil
  then show ?case by simp
next
  case (Cons y ys)
  from insert_sorted_Cons_Inl [OF Cons.prems] show ?case
  proof
    assume "key_lt (k x) (k y) = Inl e"
    then show ?thesis by (rule key_lt_raises_TypeError)
  next
    assume "key_lt (k x) (k y) = Inr False \<and> insert_sorted k x ys = Inl e"
    then show ?thesis using Cons.IH by blast
  qed
qed

lemma sort_into_raises_TypeError:
  "sort_into k acc xs = Inl e \<Longrightarrow> e = TypeError"
proof (induction xs arbitrary: acc)
  case Nil
  then show ?case by simp
next
  case (Cons x xs)
  from sort_into_Cons_Inl [OF Cons.prems] show ?case
  proof
    assume "insert_sorted k x acc = Inl e"
    then show ?thesis by (rule insert_sorted_raises_TypeError)
  next
    assume "\<exists>acc'. insert_sorted k x acc = Inr acc' \<and> sort_into k acc' xs = Inl e"
    then show ?thesis using Cons.IH by blast
  qed
qed

lemma sort_into_mset:
  "sort_into k acc xs = Inr r \<Longrightarrow> mset r = mset acc + mset xs"
proof (induction xs arbitrary: acc)
  case Nil
  then show ?case by simp
next
  case (Cons x xs)
  from sort_into_Cons_Inr [OF Cons.prems] obtain acc'
    where i: "insert_sorted k x acc = Inr acc'" and s: "sort_into k acc' xs = Inr r" by blast
  from Cons.IH [OF s] insert_sorted_mset [OF i] show ?case by simp
qed

lemma insert_sorted_no_mix:
  assumes "insert_sorted (\<lambda>p. natural_sort_key (f p)) x ys = Inr zs"
      and "\<forall>a\<in>set ys. \<forall>b\<in>set ys. \<not> mixes (f a) (f b)"
  shows "\<forall>y\<in>set ys. \<not> mixes (f x) (f y)"
  using assms
proof (induction ys arbitrary: zs)
  case Nil
  then show ?case by simp
next
  case (Cons y ys)
  let ?k = "\<lambda>p. natural_sort_key (f p)"
  have rest: "\<forall>a\<in>set ys. \<forall>b\<in>set ys. \<not> mixes (f a) (f b)" using Cons.prems(2) by simp
  from insert_sorted_Cons_Inr [OF Cons.prems(1)] show ?case
  proof
    assume h: "key_lt (?k x) (?k y) = Inr True \<and> zs = x # y # ys"
    then have xy: "\<not> mixes (f x) (f y)"
      using key_lt_natural_mixes [of "f x" "f y"] by auto
    from h have "natural_sort_key (f y) \<noteq> []"
      using key_lt_True_nonempty [of "?k x" "?k y"] by simp
    then have ne: "f y \<noteq> []" by (simp add: natural_sort_key_eq_Nil)
    have "\<forall>y'\<in>set ys. \<not> mixes (f x) (f y')"
    proof
      fix y'
      assume "y' \<in> set ys"
      with Cons.prems(2) have yy: "\<not> mixes (f y) (f y')" by simp
      show "\<not> mixes (f x) (f y')" by (rule not_mixes_trans [OF xy yy ne])
    qed
    with xy show ?thesis by simp
  next
    assume h: "key_lt (?k x) (?k y) = Inr False \<and>
               (\<exists>zs'. insert_sorted ?k x ys = Inr zs' \<and> zs = y # zs')"
    then have xy: "\<not> mixes (f x) (f y)"
      using key_lt_natural_mixes [of "f x" "f y"] by auto
    from h obtain zs' where r: "insert_sorted ?k x ys = Inr zs'" by blast
    from Cons.IH [OF r rest] xy show ?thesis by simp
  qed
qed

lemma sort_into_no_mix:
  assumes "sort_into (\<lambda>p. natural_sort_key (f p)) acc xs = Inr r"
      and "\<forall>a\<in>set acc. \<forall>b\<in>set acc. \<not> mixes (f a) (f b)"
  shows "\<forall>a\<in>set acc \<union> set xs. \<forall>b\<in>set acc \<union> set xs. \<not> mixes (f a) (f b)"
  using assms
proof (induction xs arbitrary: acc)
  case Nil
  then show ?case by simp
next
  case (Cons x xs)
  let ?k = "\<lambda>p. natural_sort_key (f p)"
  from sort_into_Cons_Inr [OF Cons.prems(1)] obtain acc'
    where i: "insert_sorted ?k x acc = Inr acc'" and s: "sort_into ?k acc' xs = Inr r"
    by blast
  have xacc: "\<forall>y\<in>set acc. \<not> mixes (f x) (f y)"
    using insert_sorted_no_mix [OF i Cons.prems(2)] .
  have xx: "\<not> mixes (f x) (f x)" by (simp add: mixes_def)
  have set': "set acc' = insert x (set acc)" using insert_sorted_set [OF i] .
  have "\<forall>a\<in>set acc'. \<forall>b\<in>set acc'. \<not> mixes (f a) (f b)"
  proof (intro ballI)
    fix a b
    assume "a \<in> set acc'" "b \<in> set acc'"
    then consider "a = x" "b = x" | "a = x" "b \<in> set acc" | "a \<in> set acc" "b = x"
      | "a \<in> set acc" "b \<in> set acc"
      using set' by auto
    then show "\<not> mixes (f a) (f b)"
    proof cases
      case 1
      with xx show ?thesis by simp
    next
      case 2
      with xacc show ?thesis by simp
    next
      case 3
      with xacc have "\<not> mixes (f x) (f a)" by simp
      then show ?thesis using mixes_sym [of "f a" "f x"] 3 by simp
    next
      case 4
      with Cons.prems(2) show ?thesis by simp
    qed
  qed
  from Cons.IH [OF s this] have
    "\<forall>a\<in>set acc' \<union> set xs. \<forall>b\<in>set acc' \<union> set xs. \<not> mixes (f a) (f b)" .
  moreover have "set acc \<union> set (x # xs) = set acc' \<union> set xs" using set' by auto
  ultimately show ?case by (simp only:)
qed

lemma insert_sorted_succeeds:
  "\<forall>y\<in>set ys. \<not> mixes (f x) (f y) \<Longrightarrow>
     \<exists>zs. insert_sorted (\<lambda>p. natural_sort_key (f p)) x ys = Inr zs"
proof (induction ys)
  case Nil
  then show ?case by simp
next
  case (Cons y ys)
  let ?k = "\<lambda>p. natural_sort_key (f p)"
  from Cons.prems have "\<not> mixes (f x) (f y)" by simp
  then obtain b where b: "key_lt (?k x) (?k y) = Inr b"
    using key_lt_natural_not_mixes [of "f x" "f y"] by blast
  from Cons.prems have "\<forall>y\<in>set ys. \<not> mixes (f x) (f y)" by simp
  from Cons.IH [OF this] obtain zs where zs: "insert_sorted ?k x ys = Inr zs" by blast
  show ?case
  proof (cases b)
    case True
    with b have "insert_sorted ?k x (y # ys) = Inr (x # y # ys)" by simp
    then show ?thesis by blast
  next
    case False
    with b zs have "insert_sorted ?k x (y # ys) = Inr (y # zs)" by simp
    then show ?thesis by blast
  qed
qed

lemma sort_into_succeeds:
  "\<forall>a\<in>set acc \<union> set xs. \<forall>b\<in>set acc \<union> set xs. \<not> mixes (f a) (f b) \<Longrightarrow>
     \<exists>r. sort_into (\<lambda>p. natural_sort_key (f p)) acc xs = Inr r"
proof (induction xs arbitrary: acc)
  case Nil
  then show ?case by simp
next
  case (Cons x xs)
  let ?k = "\<lambda>p. natural_sort_key (f p)"
  have "\<forall>y\<in>set acc. \<not> mixes (f x) (f y)" using Cons.prems by simp
  then obtain acc' where i: "insert_sorted ?k x acc = Inr acc'"
    using insert_sorted_succeeds [of acc f x] by blast
  have "set acc' = insert x (set acc)" using insert_sorted_set [OF i] .
  then have "set acc' \<union> set xs = set acc \<union> set (x # xs)" by auto
  with Cons.prems have "\<forall>a\<in>set acc' \<union> set xs. \<forall>b\<in>set acc' \<union> set xs. \<not> mixes (f a) (f b)"
    by (simp only:)
  from Cons.IH [OF this] obtain r where "sort_into ?k acc' xs = Inr r" by blast
  with i have "sort_into ?k acc (x # xs) = Inr r" by simp
  then show ?case by blast
qed

lemma py_sorted_natural_iff:
  "(\<exists>r. py_sorted (\<lambda>p. natural_sort_key (f p)) xs = Inr r) \<longleftrightarrow>
   (\<forall>a\<in>set xs. \<forall>b\<in>set xs. \<not> mixes (f a) (f b))"
proof
  assume "\<exists>r. py_sorted (\<lambda>p. natural_sort_key (f p)) xs = Inr r"
  then obtain r where "sort_into (\<lambda>p. natural_sort_key (f p)) [] xs = Inr r"
    by (auto simp: py_sorted_def)
  from sort_into_no_mix [OF this] show "\<forall>a\<in>set xs. \<forall>b\<in>set xs. \<not> mixes (f a) (f b)" by simp
next
  assume "\<forall>a\<in>set xs. \<forall>b\<in>set xs. \<not> mixes (f a) (f b)"
  then have "\<forall>a\<in>set [] \<union> set xs. \<forall>b\<in>set [] \<union> set xs. \<not> mixes (f a) (f b)" by simp
  from sort_into_succeeds [OF this] show "\<exists>r. py_sorted (\<lambda>p. natural_sort_key (f p)) xs = Inr r"
    by (simp add: py_sorted_def)
qed

lemma py_sorted_raises_TypeError: "py_sorted k xs = Inl e \<Longrightarrow> e = TypeError"
  by (simp add: py_sorted_def sort_into_raises_TypeError)

lemma py_sorted_mset: "py_sorted k xs = Inr r \<Longrightarrow> mset r = mset xs"
  using sort_into_mset [of k "[]" xs r] by (simp add: py_sorted_def)

section \<open>Natural sort: the order of the result\<close>

lemma str_lt_code_points:
  "str_lt a b \<longleftrightarrow> map of_char a < (map of_char b :: nat list)"
  by (induction a b rule: str_lt.induct) auto

lemma key_lt_rank_alternates:
  "alternates d a \<Longrightarrow> alternates d b \<Longrightarrow>
     key_lt a b = Inr (map token_rank a < map token_rank b)"
proof (induction a b arbitrary: d rule: key_lt.induct)
  case (4 x xs y ys)
  show ?case
  proof (cases x; cases y)
    fix m n
    assume "x = TInt m" "y = TInt n"
    with 4 show ?thesis by (auto simp: token_rank_def)
  next
    fix m s
    assume "x = TInt m" "y = TStr s"
    with "4.prems" show ?thesis by auto
  next
    fix s n
    assume "x = TStr s" "y = TInt n"
    with "4.prems" show ?thesis by auto
  next
    fix r s
    assume "x = TStr r" "y = TStr s"
    with 4 show ?thesis
      by (auto simp: token_rank_def str_lt_code_points inj_map_eq_map [OF inj_of_char])
  qed
qed auto

lemma key_lt_natural_rank:
  assumes "\<not> mixes s t"
  shows "key_lt (natural_sort_key s) (natural_sort_key t) = Inr (natural_rank s < natural_rank t)"
proof (cases "s = [] \<or> t = []")
  case True
  then show ?thesis
    by (cases "natural_sort_key s"; cases "natural_sort_key t")
       (auto simp: natural_sort_key_Nil natural_rank_def)
next
  case False
  with assms have "is_digit (hd s) = is_digit (hd t)" by (simp add: mixes_def)
  with False show ?thesis
    using natural_sort_key_alternates [of s] natural_sort_key_alternates [of t]
      key_lt_rank_alternates [of "is_digit (hd s)" "natural_sort_key s" "natural_sort_key t"]
    by (auto simp: natural_rank_def)
qed

lemma place_Nil: "place g x [] = [x]"
  by (simp add: place_def)

lemma place_Cons:
  "place g x (y # ys) = (if g y \<le> g x then y # place g x ys else x # y # ys)"
  by (simp add: place_def)

lemma set_place: "set (place g x ys) = insert x (set ys)"
  by (induction ys) (auto simp: place_Nil place_Cons)

lemma sorted_place:
  "sorted (map g ys) \<Longrightarrow> sorted (map g (place g x ys))"
proof (induction ys)
  case Nil
  then show ?case by (simp add: place_Nil)
next
  case (Cons y ys)
  show ?case
  proof (cases "g y \<le> g x")
    case True
    from Cons.prems have "sorted (map g ys)" and "\<forall>z\<in>set ys. g y \<le> g z" by auto
    with Cons.IH True show ?thesis by (auto simp: place_Cons set_place)
  next
    case False
    then have "g x \<le> g y" by simp
    with Cons.prems False show ?thesis by (auto simp: place_Cons)
  qed
qed

lemma filter_place:
  "sorted (map g ys) \<Longrightarrow>
     filter (\<lambda>z. g z = c) (place g x ys) = filter (\<lambda>z. g z = c) ys @ (if g x = c then [x] else [])"
proof (induction ys)
  case Nil
  then show ?case by (simp add: place_Nil)
next
  case (Cons y ys)
  show ?case
  proof (cases "g y \<le> g x")
    case True
    from Cons.prems have "sorted (map g ys)" by simp
    from Cons.IH [OF this] True show ?thesis by (simp add: place_Cons)
  next
    case False
    then have lt: "g x < g y" by simp
    from Cons.prems have "\<forall>z\<in>set (y # ys). g y \<le> g z" by auto
    with lt have "\<forall>z\<in>set (y # ys). g z \<noteq> g x" by auto
    then have "g x = c \<longrightarrow> filter (\<lambda>z. g z = c) (y # ys) = []"
      by (auto simp: filter_empty_conv)
    with False show ?thesis by (auto simp: place_Cons)
  qed
qed

lemma insert_sorted_place:
  "\<forall>y\<in>set ys. \<not> mixes (f x) (f y) \<Longrightarrow>
     insert_sorted (\<lambda>p. natural_sort_key (f p)) x ys
       = Inr (place (\<lambda>p. natural_rank (f p)) x ys)"
proof (induction ys)
  case Nil
  then show ?case by (simp add: place_Nil)
next
  case (Cons y ys)
  let ?k = "\<lambda>p. natural_sort_key (f p)" and ?g = "\<lambda>p. natural_rank (f p)"
  from Cons.prems have "\<not> mixes (f x) (f y)" by simp
  then have b: "key_lt (?k x) (?k y) = Inr (?g x < ?g y)" by (rule key_lt_natural_rank)
  from Cons.prems have "\<forall>y\<in>set ys. \<not> mixes (f x) (f y)" by simp
  from Cons.IH [OF this] have r: "insert_sorted ?k x ys = Inr (place ?g x ys)" .
  show ?case
  proof (cases "?g x < ?g y")
    case True
    then have "\<not> ?g y \<le> ?g x" by simp
    with True b show ?thesis by (simp add: place_Cons)
  next
    case False
    then have "?g y \<le> ?g x" by simp
    with False b r show ?thesis by (simp add: place_Cons)
  qed
qed

lemma sort_into_place:
  "\<forall>a\<in>set acc \<union> set xs. \<forall>b\<in>set acc \<union> set xs. \<not> mixes (f a) (f b) \<Longrightarrow>
     sort_into (\<lambda>p. natural_sort_key (f p)) acc xs
       = Inr (foldl (\<lambda>a x. place (\<lambda>p. natural_rank (f p)) x a) acc xs)"
proof (induction xs arbitrary: acc)
  case Nil
  then show ?case by simp
next
  case (Cons x xs)
  let ?k = "\<lambda>p. natural_sort_key (f p)" and ?g = "\<lambda>p. natural_rank (f p)"
  have "\<forall>y\<in>set acc. \<not> mixes (f x) (f y)" using Cons.prems by simp
  then have i: "insert_sorted ?k x acc = Inr (place ?g x acc)" by (rule insert_sorted_place)
  have "set (place ?g x acc) \<union> set xs = set acc \<union> set (x # xs)" by (auto simp: set_place)
  with Cons.prems have
    "\<forall>a\<in>set (place ?g x acc) \<union> set xs. \<forall>b\<in>set (place ?g x acc) \<union> set xs. \<not> mixes (f a) (f b)"
    by (simp only:)
  from Cons.IH [OF this] i show ?case by simp
qed

lemma foldl_place_sorted:
  "sorted (map g acc) \<Longrightarrow> sorted (map g (foldl (\<lambda>a x. place g x a) acc xs))"
  by (induction xs arbitrary: acc) (simp_all add: sorted_place)

lemma foldl_place_filter:
  "sorted (map g acc) \<Longrightarrow>
     filter (\<lambda>z. g z = c) (foldl (\<lambda>a x. place g x a) acc xs)
       = filter (\<lambda>z. g z = c) acc @ filter (\<lambda>z. g z = c) xs"
proof (induction xs arbitrary: acc)
  case Nil
  then show ?case by simp
next
  case (Cons x xs)
  have "sorted (map g (place g x acc))" using Cons.prems by (rule sorted_place)
  from Cons.IH [OF this] filter_place [OF Cons.prems, of c x] show ?case by simp
qed

lemma foldl_place_mset:
  "mset (foldl (\<lambda>a x. place g x a) acc xs) = mset acc + mset xs"
proof (induction xs arbitrary: acc)
  case Nil
  then show ?case by simp
next
  case (Cons x xs)
  let ?P = "\<lambda>y. g y \<le> g x"
  have e: "mset (takeWhile ?P acc) + mset (dropWhile ?P acc) = mset acc"
    by (metis mset_append takeWhile_dropWhile_id)
  have "mset (place g x acc) = add_mset x (mset acc)"
    by (simp add: place_def e)
  with Cons.IH [of "place g x acc"] show ?case by simp
qed

text \<open>
  On identifiers that do not mix, \<open>sorted\<close> returns the stable sort by the natural
  ordering: digit runs compare numerically, text runs case-insensitively by code point,
  and assets with equal keys keep the order of the listing.
\<close>

lemma py_sorted_natural_is_stable_sort:
  assumes "\<forall>a\<in>set xs. \<forall>b\<in>set xs. \<not> mixes (f a) (f b)"
  shows "py_sorted (\<lambda>p. natural_sort_key (f p)) xs = Inr (sort_key (\<lambda>p. natural_rank (f p)) xs)"
proof -
  let ?g = "\<lambda>p. natural_rank (f p)"
  let ?r = "foldl (\<lambda>a x. place ?g x a) [] xs"
  from assms have "\<forall>a\<in>set [] \<union> set xs. \<forall>b\<in>set [] \<union> set xs. \<not> mixes (f a) (f b)" by simp
  from sort_into_place [OF this]
  have r: "py_sorted (\<lambda>p. natural_sort_key (f p)) xs = Inr ?r" by (simp add: py_sorted_def)
  have "sort_key ?g xs = ?r"
  proof (rule properties_for_sort_key)
    show "mset ?r = mset xs" by (simp add: foldl_place_mset)
    show "sorted (map ?g ?r)" by (rule foldl_place_sorted) simp
    fix k
    assume "k \<in> set ?r"
    have "filter (\<lambda>z. ?g z = ?g k) ?r = filter (\<lambda>z. ?g z = ?g k) [] @ filter (\<lambda>z. ?g z = ?g k) xs"
      by (rule foldl_place_filter) simp
    then show "filter (\<lambda>x. ?g k = ?g x) ?r = filter (\<lambda>x. ?g k = ?g x) xs"
      by (simp add: eq_commute)
  qed
  with r show ?thesis by simp
qed

section \<open>What the pipeline leaves unchanged\<close>

lemma evolves_refl: "evolves w w"
  by (simp add: evolves_def)

lemma evolves_trans: "evolves a b \<Longrightarrow> evolves b c \<Longrightarrow> evolves a c"
  by (auto simp: evolves_def)

lemma run_evolves: "evolves w (snd (run t args w))"
  by (auto simp: evolves_def run_def wrote_events_def is_wrote_def split: prod.splits)

lemma run_cmd_evolves: "evolves w (snd (run_cmd t args w))"
  using run_evolves [of w t args]
  by (auto simp: run_cmd_def split: prod.splits sum.splits)

lemma unlink_evolves: "evolves w (snd (unlink p w))"
  by (simp add: evolves_def unlink_def wrote_events_def)

lemma try_unlink_evolves: "evolves w (try_unlink p w)"
  by (simp add: try_unlink_def unlink_evolves)

lemma stale_evolves: "evolves w (if exists_path p w then try_unlink p w else w)"
  by (simp add: try_unlink_evolves evolves_refl)

lemma os_replace_evolves: "evolves w (snd (os_replace a b w))"
  by (simp add: evolves_def os_replace_def wrote_events_def split: option.splits)

lemma mkdir_evolves: "evolves w (snd (mkdir_exist_ok p w))"
  by (simp add: evolves_def mkdir_exist_ok_def)

lemma identify_evolves: "evolves w (snd (identify_num_pages t im p w))"
  using run_cmd_evolves [of w t "identify_args im p"]
  by (auto simp: identify_num_pages_def Let_def split: prod.splits sum.splits option.splits)

lemma publish_step3_evolves: "evolves w (snd (publish_step3 a b c w))"
  using os_replace_evolves [of w b a]
  by (auto simp: publish_step3_def split: prod.splits sum.splits
      intro: evolves_trans try_unlink_evolves)

lemma safe_replace_evolves: "evolves w (snd (safe_replace a b w))"
proof -
  let ?bk = "add_suffix a ''.bak''"
  let ?w1 = "if exists_path ?bk w then try_unlink ?bk w else w"
  have 1: "evolves w ?w1" by (rule stale_evolves)
  have 2: "evolves ?w1 (snd (os_replace a ?bk ?w1))" by (rule os_replace_evolves)
  have 3: "evolves (snd (os_replace a ?bk ?w1))
             (snd (publish_step3 a b ?bk (snd (os_replace a ?bk ?w1))))"
    by (rule publish_step3_evolves)
  have "evolves ?w1 (snd (safe_replace a b w))"
    using 2 3 unfolding safe_replace_def Let_def
    by (auto split: prod.splits sum.splits intro: evolves_trans)
  with 1 show ?thesis by (rule evolves_trans)
qed

lemma combine_after_identify:
  "evolves (snd (identify_num_pages t im p w)) (snd (combine_channels_if_needed t im mode p w))"
proof -
  obtain r w1 where i: "identify_num_pages t im p w = (r, w1)"
    by (cases "identify_num_pages t im p w")
  show ?thesis
  proof (cases r)
    case (Inl e)
    then show ?thesis using i by (simp add: combine_channels_if_needed_def evolves_refl)
  next
    case (Inr n)
    let ?tc = "add_suffix p ''.rgb.tmp.tif''"
    let ?w2 = "if exists_path ?tc w1 then try_unlink ?tc w1 else w1"
    have 2: "evolves w1 ?w2" by (rule stale_evolves)
    have 3: "evolves ?w2 (snd (run_cmd t (combine_args im mode p n ?tc) ?w2))"
      by (rule run_cmd_evolves)
    have "evolves w1 (snd (combine_channels_if_needed t im mode p w))"
      using i Inr evolves_trans [OF 2 3]
      by (auto simp: combine_channels_if_needed_def Let_def evolves_refl
          split: prod.splits sum.splits)
    then show ?thesis using i by simp
  qed
qed

lemma combine_evolves: "evolves w (snd (combine_channels_if_needed t im mode p w))"
  using identify_evolves combine_after_identify by (rule evolves_trans)

lemma lzw_evolves: "evolves w (snd (lzw_compress_tiff_inplace t im mode p w))"
proof -
  let ?to = "add_suffix p ''.lzw.tmp.tif''"
  let ?w1 = "if exists_path ?to w then try_unlink ?to w else w"
  let ?args = "(if mode = Some ''magick'' then [im] else [im]) @ [p, ''-compress'', ''LZW'', ?to]"
  have 1: "evolves w ?w1" by (rule stale_evolves)
  have 2: "evolves ?w1 (snd (run_cmd t ?args ?w1))" by (rule run_cmd_evolves)
  have "snd (lzw_compress_tiff_inplace t im mode p w) = snd (run_cmd t ?args ?w1)"
    unfolding lzw_compress_tiff_inplace_def Let_def by (auto split: prod.splits sum.splits)
  with evolves_trans [OF 1 2] show ?thesis by simp
qed

lemma thumb_evolves: "evolves w (snd (make_thumbnail t im mode p j w))"
proof -
  obtain r1 w1 where m: "mkdir_exist_ok (parent_dir j) w = (r1, w1)"
    by (cases "mkdir_exist_ok (parent_dir j) w")
  have 1: "evolves w w1" using mkdir_evolves [of w "parent_dir j"] m by simp
  let ?args = "(if mode = Some ''magick'' then [im] else [im])
     @ [p, ''-thumbnail'', ''256x256^'', ''-gravity'', ''center'', ''-extent'', ''256x256'', j]"
  have 2: "evolves w1 (snd (run_cmd t ?args w1))" by (rule run_cmd_evolves)
  show ?thesis
  proof (cases r1)
    case (Inl e)
    then show ?thesis using m 1 by (simp add: make_thumbnail_def)
  next
    case (Inr u)
    then have "snd (make_thumbnail t im mode p j w) = snd (run_cmd t ?args w1)"
      using m unfolding make_thumbnail_def Let_def by (auto split: prod.splits sum.splits)
    with evolves_trans [OF 1 2] show ?thesis by simp
  qed
qed

lemma process_asset_after_combine:
  "evolves (snd (combine_channels_if_needed t im mode p w)) (snd (process_asset t im mode p w))"
proof -
  obtain r1 w1 where c: "combine_channels_if_needed t im mode p w = (r1, w1)"
    by (cases "combine_channels_if_needed t im mode p w")
  have "evolves w1 (snd (process_asset t im mode p w))"
  proof (cases r1)
    case (Inl e)
    then show ?thesis using c by (simp add: process_asset_def evolves_refl)
  next
    case (Inr cp)
    obtain r2 w2 where l: "lzw_compress_tiff_inplace t im mode cp w1 = (r2, w2)"
      by (cases "lzw_compress_tiff_inplace t im mode cp w1")
    have 2: "evolves w1 w2" using lzw_evolves [of w1 t im mode cp] l by simp
    show ?thesis
    proof (cases r2)
      case (Inl e)
      then show ?thesis using c l 2 \<open>r1 = Inr cp\<close> by (simp add: process_asset_def)
    next
      case r2: (Inr tl)
      obtain r3 w3 where s: "safe_replace p tl w2 = (r3, w3)" by (cases "safe_replace p tl w2")
      have 3: "evolves w1 w3"
        using safe_replace_evolves [of w2 p tl] s 2 by (auto intro: evolves_trans)
      show ?thesis
      proof (cases r3)
        case (Inl e)
        then show ?thesis using c l s 3 Inr r2 by (simp add: process_asset_def)
      next
        case r3: (Inr u)
        let ?w4 = "if cp \<noteq> p \<and> exists_path cp w3 then try_unlink cp w3 else w3"
        have 4: "evolves w3 ?w4" by (simp add: try_unlink_evolves evolves_refl)
        have 5: "evolves ?w4
                   (snd (make_thumbnail t im mode p (''thumbs/'' @ stem p @ ''.jpg'') ?w4))"
          by (rule thumb_evolves)
        have "snd (process_asset t im mode p w) =
              snd (make_thumbnail t im mode p (''thumbs/'' @ stem p @ ''.jpg'') ?w4)"
          using c l s Inr r2 r3 by (simp add: process_asset_def Let_def)
        then show ?thesis using 3 4 5 by (auto intro: evolves_trans)
      qed
    qed
  qed
  then show ?thesis using c by simp
qed

lemma process_asset_evolves: "evolves w (snd (process_asset t im mode p w))"
  using combine_evolves process_asset_after_combine by (rule evolves_trans)

lemma main_loop_evolves: "evolves w (snd (main_loop t im mode xs bs w))"
proof (induction xs arbitrary: bs w)
  case Nil
  then show ?case by (simp add: evolves_refl)
next
  case (Cons x xs)
  show ?case
    using process_asset_evolves [of w t im mode x]
      Cons.IH [of "snd (process_asset t im mode x w)" "bs @ [stem x]"]
    by (auto simp: Let_def intro: evolves_trans)
qed

lemma main_loop_basenames: "fst (main_loop t im mode xs bs w) = bs @ map stem xs"
  by (induction xs arbitrary: bs w) (simp_all add: Let_def)

lemma exists_cmd_evolves: "evolves w (snd (exists_cmd t c w))"
  using run_evolves [of w t "[c, ''-version'']"]
  by (auto simp: exists_cmd_def split: prod.splits sum.splits)

lemma find_evolves: "evolves w (snd (find_imagemagick_cmd t w))"
proof -
  obtain b1 w1 where 1: "exists_cmd t ''magick'' w = (b1, w1)"
    by (cases "exists_cmd t ''magick'' w")
  obtain b2 w2 where 2: "exists_cmd t ''convert'' w1 = (b2, w2)"
    by (cases "exists_cmd t ''convert'' w1")
  obtain r3 w3 where 3: "run t [''convert'', ''-version''] w2 = (r3, w3)"
    by (cases "run t [''convert'', ''-version''] w2")
  have e1: "evolves w w1" using exists_cmd_evolves [of w t "''magick''"] 1 by simp
  have e2: "evolves w1 w2" using exists_cmd_evolves [of w1 t "''convert''"] 2 by simp
  have e3: "evolves w2 w3" using run_evolves [of w2 t "[''convert'', ''-version'']"] 3 by simp
  have e12: "evolves w w2" using e1 e2 by (rule evolves_trans)
  have e123: "evolves w w3" using e12 e3 by (rule evolves_trans)
  show ?thesis
    using 1 2 3 e1 e12 e123
    by (auto simp: find_imagemagick_cmd_def split: sum.splits)
qed

section \<open>Batch Orchestrator: results\<close>

lemma evolves_trace_mono: "evolves w w' \<Longrightarrow> e \<in> set (trace w) \<Longrightarrow> e \<in> set (trace w')"
  by (auto simp: evolves_def)

lemma process_asset_attempts:
  "Exec (identify_args im p) \<in> set (trace (snd (process_asset t im mode p w)))"
proof -
  have "Exec (identify_args im p) \<in> set (trace (snd (identify_num_pages t im p w)))"
    by (simp add: identify_trace)
  moreover have "evolves (snd (identify_num_pages t im p w)) (snd (process_asset t im mode p w))"
    using combine_after_identify process_asset_after_combine by (rule evolves_trans)
  ultimately show ?thesis by (rule evolves_trace_mono [rotated])
qed

lemma main_loop_attempts:
  "p \<in> set xs \<Longrightarrow> Exec (identify_args im p) \<in> set (trace (snd (main_loop t im mode xs bs w)))"
proof (induction xs arbitrary: bs w)
  case Nil
  then show ?case by simp
next
  case (Cons x xs)
  let ?w' = "snd (process_asset t im mode x w)"
  have unfold: "main_loop t im mode (x # xs) bs w = main_loop t im mode xs (bs @ [stem x]) ?w'"
    by (simp add: Let_def)
  show ?case
  proof (cases "p = x")
    case True
    have "Exec (identify_args im x) \<in> set (trace ?w')" by (rule process_asset_attempts)
    moreover have "evolves ?w' (snd (main_loop t im mode xs (bs @ [stem x]) ?w'))"
      by (rule main_loop_evolves)
    ultimately show ?thesis using True unfold evolves_trace_mono by simp
  next
    case False
    with Cons.prems have "p \<in> set xs" by simp
    from Cons.IH [OF this] unfold show ?thesis by simp
  qed
qed

lemma mkdir_thumbs_ok:
  "files w ''thumbs'' = None \<Longrightarrow> \<not> denied w (Mkdir ''thumbs'') \<Longrightarrow>
     mkdir_exist_ok ''thumbs'' w = (Inr (), w)"
  by (simp add: mkdir_exist_ok_def)

lemma py_sorted_Nil: "py_sorted k [] = Inr []"
  by (simp add: py_sorted_def)

lemma main_tool_found:
  assumes "files w ''thumbs'' = None" and "\<not> denied w (Mkdir ''thumbs'')"
      and "find_imagemagick_cmd t w = ((Some im, mode), w1)"
  shows "main t w =
           (case py_sorted (\<lambda>p. natural_sort_key (stem p)) (tiff_files w1) of
              Inl e \<Rightarrow> (Uncaught e, w1)
            | Inr sorted_tiffs \<Rightarrow>
                write_manifest (map stem sorted_tiffs)
                  (snd (main_loop t im mode sorted_tiffs [] w1)))"
proof (cases "tiff_files w1 = []")
  case True
  then show ?thesis
    using assms by (simp add: main_def mkdir_thumbs_ok py_sorted_Nil)
next
  case False
  have "\<And>s. (case main_loop t im mode s [] w1 of (bs, w2) \<Rightarrow> write_manifest bs w2)
           = write_manifest (map stem s) (snd (main_loop t im mode s [] w1))"
    using main_loop_basenames [of t im mode _ "[]" w1] by (simp add: case_prod_beta)
  with False show ?thesis
    using assms by (simp add: main_def mkdir_thumbs_ok split: sum.splits)
qed

lemma write_manifest_ok:
  "\<not> denied w (OpenWrite ''manifest.json'') \<Longrightarrow>
     write_manifest bs w =
       (Returned, w\<lparr>files := (files w)(''manifest.json'' \<mapsto> Json_basenames bs),
                    trace := trace w @ [Wrote ''manifest.json'' (Json_basenames bs)]\<rparr>)"
  by (simp add: write_manifest_def write_file_def)

lemma main_completes:
  assumes "files w ''thumbs'' = None" and "\<not> denied w (Mkdir ''thumbs'')"
      and "find_imagemagick_cmd t w = ((Some im, mode), w1)"
      and "py_sorted (\<lambda>p. natural_sort_key (stem p)) (tiff_files w1) = Inr sorted_tiffs"
      and "\<not> denied w (OpenWrite ''manifest.json'')"
  shows "\<exists>w2. w2 = snd (main_loop t im mode sorted_tiffs [] w1) \<and> evolves w w2 \<and>
           main t w =
             (Returned,
              w2\<lparr>files := (files w2)(''manifest.json'' \<mapsto> Json_basenames (map stem sorted_tiffs)),
                 trace := trace w2 @ [Wrote ''manifest.json'' (Json_basenames (map stem sorted_tiffs))]\<rparr>)"
proof -
  let ?w2 = "snd (main_loop t im mode sorted_tiffs [] w1)"
  have "evolves w w1" using find_evolves [of w t] assms(3) by simp
  moreover have "evolves w1 ?w2" by (rule main_loop_evolves)
  ultimately have ev: "evolves w ?w2" by (rule evolves_trans)
  then have "\<not> denied ?w2 (OpenWrite ''manifest.json'')"
    using assms(5) by (simp add: evolves_def)
  then show ?thesis
    using main_tool_found [OF assms(1-3)] assms(4) ev by (simp add: write_manifest_ok)
qed

text \<open>
  The order of the manifest: when no two TIFF files have stems that mix, the run
  completes and the manifest lists the stems in the natural ordering, stems with equal
  keys in the order of the listing.
\<close>

lemma main_manifest_in_natural_order:
  assumes "files w ''thumbs'' = None" and "\<not> denied w (Mkdir ''thumbs'')"
      and "find_imagemagick_cmd t w = ((Some im, mode), w1)"
      and "\<forall>a\<in>set (tiff_files w1). \<forall>b\<in>set (tiff_files w1). \<not> mixes (stem a) (stem b)"
      and "\<not> denied w (OpenWrite ''manifest.json'')"
  shows "fst (main t w) = Returned \<and>
         files (snd (main t w)) ''manifest.json''
           = Some (Json_basenames
               (map stem (sort_key (\<lambda>p. natural_rank (stem p)) (tiff_files w1))))"
proof -
  have "py_sorted (\<lambda>p. natural_sort_key (stem p)) (tiff_files w1)
          = Inr (sort_key (\<lambda>p. natural_rank (stem p)) (tiff_files w1))"
    using assms(4) by (rule py_sorted_natural_is_stable_sort)
  from main_completes [OF assms(1-3) this assms(5)] show ?thesis by auto
qed

text \<open>
  Claim C2, as amended. In every run in which the thumbnails directory can be created,
  the tool is located, the sort of the assets returns and the manifest file can be
  opened: \<open>main\<close> returns; the manifest holds the base names of all the sorted assets, in
  that order, whatever the tool does on any of them (so also when processing an asset
  raises); processing was started for every asset; and the manifest is the only file the
  program writes itself, once, as the last event of the run. With no matching asset the
  manifest is \<open>{"basenames": []}\<close>.
\<close>

theorem main_manifest_covers_every_asset:
  assumes "files w ''thumbs'' = None" and "\<not> denied w (Mkdir ''thumbs'')"
      and "find_imagemagick_cmd t w = ((Some im, mode), w1)"
      and "py_sorted (\<lambda>p. natural_sort_key (stem p)) (tiff_files w1) = Inr sorted_tiffs"
      and "\<not> denied w (OpenWrite ''manifest.json'')"
  shows "fst (main t w) = Returned \<and>
         files (snd (main t w)) ''manifest.json'' = Some (Json_basenames (map stem sorted_tiffs)) \<and>
         wrote_events (snd (main t w)) =
           wrote_events w @ [Wrote ''manifest.json'' (Json_basenames (map stem sorted_tiffs))] \<and>
         last (trace (snd (main t w))) = Wrote ''manifest.json'' (Json_basenames (map stem sorted_tiffs)) \<and>
         (\<forall>p\<in>set sorted_tiffs. Exec (identify_args im p) \<in> set (trace (snd (main t w)))) \<and>
         (tiff_files w1 = [] \<longrightarrow>
            files (snd (main t w)) ''manifest.json'' = Some (Json_basenames []))"
proof -
  let ?m = "Json_basenames (map stem sorted_tiffs)"
  from main_completes [OF assms] obtain w2 where
    w2: "w2 = snd (main_loop t im mode sorted_tiffs [] w1)" and ev: "evolves w w2" and
    m: "main t w = (Returned, w2\<lparr>files := (files w2)(''manifest.json'' \<mapsto> ?m),
                                 trace := trace w2 @ [Wrote ''manifest.json'' ?m]\<rparr>)"
    by blast
  have a: "fst (main t w) = Returned" using m by simp
  have b: "files (snd (main t w)) ''manifest.json'' = Some ?m" using m by simp
  have c: "wrote_events (snd (main t w)) = wrote_events w @ [Wrote ''manifest.json'' ?m]"
    using m ev by (simp add: wrote_events_def evolves_def is_wrote_def)
  have d: "last (trace (snd (main t w))) = Wrote ''manifest.json'' ?m" using m by simp
  have e: "\<forall>p\<in>set sorted_tiffs. Exec (identify_args im p) \<in> set (trace (snd (main t w)))"
  proof
    fix p
    assume "p \<in> set sorted_tiffs"
    then have "Exec (identify_args im p) \<in> set (trace w2)"
      unfolding w2 by (rule main_loop_attempts)
    then show "Exec (identify_args im p) \<in> set (trace (snd (main t w)))" using m by simp
  qed
  have f: "tiff_files w1 = [] \<longrightarrow> files (snd (main t w)) ''manifest.json'' = Some (Json_basenames [])"
  proof
    assume "tiff_files w1 = []"
    with assms(4) have "sorted_tiffs = []" by (simp add: py_sorted_Nil)
    with b show "files (snd (main t w)) ''manifest.json'' = Some (Json_basenames [])" by simp
  qed
  from a b c d e f show ?thesis by blast
qed

theorem main_manifest_covers_every_asset_witness:
  "fst (main (fake_magick ''b.tif'') dir_ab) = Returned \<and>
   files (snd (main (fake_magick ''b.tif'') dir_ab)) ''manifest.json''
     = Some (Json_basenames [''a'', ''b'']) \<and>
   wrote_events (snd (main (fake_magick ''b.tif'') dir_ab))
     = [Wrote ''manifest.json'' (Json_basenames [''a'', ''b''])] \<and>
   isl (fst (process_asset (fake_magick ''b.tif'') ''magick'' (Some ''magick'') ''b.tif'' dir_ab)) \<and>
   files (snd (main (fake_magick ''b.tif'') dir_empty)) ''manifest.json''
     = Some (Json_basenames [])"
proof -
  let ?t = "fake_magick ''b.tif''"
  let ?k = "\<lambda>p. natural_sort_key (stem p)"
  let ?w1 = "snd (find_imagemagick_cmd ?t dir_ab)"
  let ?v1 = "snd (find_imagemagick_cmd ?t dir_empty)"
  have h1: "files dir_ab ''thumbs'' = None" by code_simp
  have h2: "\<not> denied dir_ab (Mkdir ''thumbs'')" by code_simp
  have "fst (find_imagemagick_cmd ?t dir_ab) = (Some ''magick'', Some ''magick'')" by code_simp
  then have h3: "find_imagemagick_cmd ?t dir_ab = ((Some ''magick'', Some ''magick''), ?w1)"
    by (simp add: prod_eq_iff)
  have h4: "py_sorted ?k (tiff_files ?w1) = Inr [''a.tif'', ''b.tif'']" by code_simp
  have h5: "\<not> denied dir_ab (OpenWrite ''manifest.json'')" by code_simp
  have g1: "files dir_empty ''thumbs'' = None" by code_simp
  have g2: "\<not> denied dir_empty (Mkdir ''thumbs'')" by code_simp
  have "fst (find_imagemagick_cmd ?t dir_empty) = (Some ''magick'', Some ''magick'')" by code_simp
  then have g3: "find_imagemagick_cmd ?t dir_empty = ((Some ''magick'', Some ''magick''), ?v1)"
    by (simp add: prod_eq_iff)
  have g4: "py_sorted ?k (tiff_files ?v1) = Inr []" by code_simp
  have g5: "\<not> denied dir_empty (OpenWrite ''manifest.json'')" by code_simp
  have g6: "tiff_files ?v1 = []" by code_simp
  have st: "map stem [''a.tif'', ''b.tif''] = [''a'', ''b'']" by code_simp
  have we: "wrote_events dir_ab = []" by code_simp
  have fl: "isl (fst (process_asset ?t ''magick'' (Some ''magick'') ''b.tif'' dir_ab))" by code_simp
  from main_manifest_covers_every_asset [OF h1 h2 h3 h4 h5]
       main_manifest_covers_every_asset [OF g1 g2 g3 g4 g5] g6 st we fl
  show ?thesis by simp
qed

text \<open>
  Claim C2 as stated fails: in a run in which the tool cannot be located, the program
  exits before any manifest is written.
\<close>

theorem no_manifest_without_tool_counterexample:
  "fst (main tool_missing dir_ab) = Exited 1 \<and>
   files (snd (main tool_missing dir_ab)) ''manifest.json'' = None \<and>
   wrote_events (snd (main tool_missing dir_ab)) = []"
  by code_simp

text \<open>
  Claim C7, as amended. When the thumbnails directory can be created and the tool cannot
  be located, the process ends with \<open>sys.exit(1)\<close>, in the state the search for the
  tool left. When the thumbnails directory can be created, the tool is located, the sort
  of the assets returns and the manifest file can be opened, the process exits with
  status 0, whatever happens to individual assets. When the thumbnails directory cannot
  be created, or the manifest file cannot be opened after the loop, the exception is not
  caught and the process exits with status 1.
\<close>

theorem main_exit_status:
  "(files w ''thumbs'' = None \<and> \<not> denied w (Mkdir ''thumbs'') \<and>
    fst (fst (find_imagemagick_cmd t w)) = None \<longrightarrow>
      main t w = (Exited 1, snd (find_imagemagick_cmd t w)) \<and> exit_status (fst (main t w)) = 1) \<and>
   (files w ''thumbs'' = None \<and> \<not> denied w (Mkdir ''thumbs'') \<and>
    find_imagemagick_cmd t w = ((Some im, mode), w1) \<and>
    py_sorted (\<lambda>p. natural_sort_key (stem p)) (tiff_files w1) = Inr sorted_tiffs \<longrightarrow>
      (\<not> denied w (OpenWrite ''manifest.json'') \<longrightarrow> exit_status (fst (main t w)) = 0) \<and>
      (denied w (OpenWrite ''manifest.json'') \<longrightarrow> exit_status (fst (main t w)) = 1)) \<and>
   (files w ''thumbs'' \<noteq> None \<or> denied w (Mkdir ''thumbs'') \<longrightarrow>
      exit_status (fst (main t w)) = 1 \<and> snd (main t w) = w)"
proof (intro conjI impI)
  assume a: "files w ''thumbs'' = None \<and> \<not> denied w (Mkdir ''thumbs'') \<and>
             fst (fst (find_imagemagick_cmd t w)) = None"
  obtain i m w' where f: "find_imagemagick_cmd t w = ((i, m), w')"
    by (cases "find_imagemagick_cmd t w") auto
  with a have "i = None" by simp
  with a f show "main t w = (Exited 1, snd (find_imagemagick_cmd t w))"
    by (simp add: main_def mkdir_thumbs_ok)
  then show "exit_status (fst (main t w)) = 1" by simp
next
  assume a: "files w ''thumbs'' = None \<and> \<not> denied w (Mkdir ''thumbs'') \<and>
             find_imagemagick_cmd t w = ((Some im, mode), w1) \<and>
             py_sorted (\<lambda>p. natural_sort_key (stem p)) (tiff_files w1) = Inr sorted_tiffs"
     and b: "\<not> denied w (OpenWrite ''manifest.json'')"
  from a b main_completes [of w t im mode w1 sorted_tiffs]
  show "exit_status (fst (main t w)) = 0" by auto
next
  assume a: "files w ''thumbs'' = None \<and> \<not> denied w (Mkdir ''thumbs'') \<and>
             find_imagemagick_cmd t w = ((Some im, mode), w1) \<and>
             py_sorted (\<lambda>p. natural_sort_key (stem p)) (tiff_files w1) = Inr sorted_tiffs"
     and b: "denied w (OpenWrite ''manifest.json'')"
  let ?w2 = "snd (main_loop t im mode sorted_tiffs [] w1)"
  have "evolves w w1" using find_evolves [of w t] a by simp
  moreover have "evolves w1 ?w2" by (rule main_loop_evolves)
  ultimately have "evolves w ?w2" by (rule evolves_trans)
  with b have "denied ?w2 (OpenWrite ''manifest.json'')" by (simp add: evolves_def)
  then have "fst (write_manifest (map stem sorted_tiffs) ?w2) = Uncaught PermissionError"
    by (simp add: write_manifest_def write_file_def)
  moreover have "main t w = write_manifest (map stem sorted_tiffs) ?w2"
    using main_tool_found [of w t im mode w1] a by simp
  ultimately show "exit_status (fst (main t w)) = 1" by simp
next
  assume "files w ''thumbs'' \<noteq> None \<or> denied w (Mkdir ''thumbs'')"
  then show "exit_status (fst (main t w)) = 1"
    by (auto simp: main_def mkdir_exist_ok_def)
next
  assume "files w ''thumbs'' \<noteq> None \<or> denied w (Mkdir ''thumbs'')"
  then show "snd (main t w) = w"
    by (auto simp: main_def mkdir_exist_ok_def)
qed

theorem main_exit_status_witness:
  "exit_status (fst (main tool_missing dir_ab)) = 1 \<and>
   exit_status (fst (main (fake_magick ''b.tif'') dir_ab)) = 0 \<and>
   isl (fst (process_asset (fake_magick ''b.tif'') ''magick'' (Some ''magick'') ''b.tif''
              (snd (find_imagemagick_cmd (fake_magick ''b.tif'') dir_ab)))) \<and>
   exit_status (fst (main (fake_magick ''b.tif'') dir_thumbs_is_file)) = 1"
proof -
  let ?t = "fake_magick ''b.tif''"
  let ?k = "\<lambda>p. natural_sort_key (stem p)"
  let ?w1 = "snd (find_imagemagick_cmd ?t dir_ab)"
  have h1: "files dir_ab ''thumbs'' = None" by code_simp
  have h2: "\<not> denied dir_ab (Mkdir ''thumbs'')" by code_simp
  have m: "fst (fst (find_imagemagick_cmd tool_missing dir_ab)) = None" by code_simp
  have "fst (find_imagemagick_cmd ?t dir_ab) = (Some ''magick'', Some ''magick'')" by code_simp
  then have h3: "find_imagemagick_cmd ?t dir_ab = ((Some ''magick'', Some ''magick''), ?w1)"
    by (simp add: prod_eq_iff)
  have h4: "py_sorted ?k (tiff_files ?w1) = Inr [''a.tif'', ''b.tif'']" by code_simp
  have h5: "\<not> denied dir_ab (OpenWrite ''manifest.json'')" by code_simp
  have fl: "isl (fst (process_asset ?t ''magick'' (Some ''magick'') ''b.tif'' ?w1))" by code_simp
  have th: "files dir_thumbs_is_file ''thumbs'' \<noteq> None" by code_simp
  have a: "exit_status (fst (main tool_missing dir_ab)) = 1"
    using main_exit_status [of dir_ab tool_missing] h1 h2 m by blast
  have b: "exit_status (fst (main ?t dir_ab)) = 0"
    using main_exit_status [of dir_ab ?t "''magick''" "Some ''magick''" ?w1 "[''a.tif'', ''b.tif'']"]
      h1 h2 h3 h4 h5 by blast
  have c: "exit_status (fst (main ?t dir_thumbs_is_file)) = 1"
    using main_exit_status [of dir_thumbs_is_file ?t] th by blast
  from a b c fl show ?thesis by blast
qed

text \<open>
  Claim C7 as stated fails: with a tool that can be located, a regular file named
  \<open>thumbs\<close> in the working directory makes the process exit with status 1.
\<close>

theorem exit_failure_with_tool_counterexample:
  "fst (fst (find_imagemagick_cmd (fake_magick ''b.tif'') dir_thumbs_is_file)) = Some ''magick'' \<and>
   fst (main (fake_magick ''b.tif'') dir_thumbs_is_file) = Uncaught FileExistsError \<and>
   exit_status (fst (main (fake_magick ''b.tif'') dir_thumbs_is_file)) = 1"
  by code_simp

lemma count_list_map_filter:
  "count_list (map f xs) b = length (filter (\<lambda>p. f p = b) xs)"
  by (induction xs) simp_all

lemma mset_eq_filter_length:
  assumes "mset xs = mset ys"
  shows "length (filter P xs) = length (filter P ys)"
proof -
  have "size (filter_mset P (mset xs)) = size (filter_mset P (mset ys))"
    using assms by simp
  then show ?thesis by (simp only: mset_filter [symmetric] size_mset)
qed

text \<open>
  Claim C8, as amended. In a run that completes (the hypotheses of C2), the manifest has
  one entry for each asset: a base identifier appears in it as many times as there are
  assets with that base identifier. Entries are appended to a list; none is overwritten
  and duplicates are kept.
\<close>

theorem manifest_keeps_duplicate_basenames:
  assumes "files w ''thumbs'' = None" and "\<not> denied w (Mkdir ''thumbs'')"
      and "find_imagemagick_cmd t w = ((Some im, mode), w1)"
      and "py_sorted (\<lambda>p. natural_sort_key (stem p)) (tiff_files w1) = Inr sorted_tiffs"
      and "\<not> denied w (OpenWrite ''manifest.json'')"
  shows "files (snd (main t w)) ''manifest.json'' = Some (Json_basenames (map stem sorted_tiffs)) \<and>
         length (map stem sorted_tiffs) = length (tiff_files w1) \<and>
         (\<forall>b. count_list (map stem sorted_tiffs) b
               = length (filter (\<lambda>p. stem p = b) (tiff_files w1)))"
proof -
  from main_completes [OF assms] have
    a: "files (snd (main t w)) ''manifest.json'' = Some (Json_basenames (map stem sorted_tiffs))"
    by auto
  have m: "mset sorted_tiffs = mset (tiff_files w1)"
    using assms(4) by (rule py_sorted_mset)
  then have "size (mset sorted_tiffs) = size (mset (tiff_files w1))" by simp
  then have b: "length (map stem sorted_tiffs) = length (tiff_files w1)" by simp
  have c: "\<forall>b. count_list (map stem sorted_tiffs) b
               = length (filter (\<lambda>p. stem p = b) (tiff_files w1))"
    using mset_eq_filter_length [OF m] by (simp add: count_list_map_filter)
  from a b c show ?thesis by blast
qed

theorem manifest_keeps_duplicate_basenames_witness:
  "files (snd (main (fake_magick ''b.tif'') dir_same_stem)) ''manifest.json''
     = Some (Json_basenames [''a'', ''a'']) \<and>
   count_list [''a'', ''a''] ''a'' = length (tiff_files dir_same_stem) \<and>
   length (tiff_files dir_same_stem) = 2"
proof -
  let ?t = "fake_magick ''b.tif''"
  let ?k = "\<lambda>p. natural_sort_key (stem p)"
  let ?w1 = "snd (find_imagemagick_cmd ?t dir_same_stem)"
  have h1: "files dir_same_stem ''thumbs'' = None" by code_simp
  have h2: "\<not> denied dir_same_stem (Mkdir ''thumbs'')" by code_simp
  have "fst (find_imagemagick_cmd ?t dir_same_stem) = (Some ''magick'', Some ''magick'')"
    by code_simp
  then have h3: "find_imagemagick_cmd ?t dir_same_stem = ((Some ''magick'', Some ''magick''), ?w1)"
    by (simp add: prod_eq_iff)
  have h4: "py_sorted ?k (tiff_files ?w1) = Inr [''a.tiff'', ''a.tif'']" by code_simp
  have h5: "\<not> denied dir_same_stem (OpenWrite ''manifest.json'')" by code_simp
  have st: "map stem [''a.tiff'', ''a.tif''] = [''a'', ''a'']" by code_simp
  have tf: "tiff_files ?w1 = tiff_files dir_same_stem" by code_simp
  have fl: "filter (\<lambda>p. stem p = ''a'') (tiff_files dir_same_stem) = tiff_files dir_same_stem"
    by code_simp
  have ln: "length (tiff_files dir_same_stem) = 2" by code_simp
  from manifest_keeps_duplicate_basenames [OF h1 h2 h3 h4 h5] st tf fl ln
  show ?thesis by simp
qed

text \<open>
  Claim C8 as stated fails: with \<open>a.tif\<close> and \<open>a.tiff\<close> in the directory, the manifest
  holds the base identifier \<open>a\<close> twice.
\<close>

theorem duplicate_basename_in_manifest_counterexample:
  "files (snd (main (fake_magick ''b.tif'') dir_same_stem)) ''manifest.json''
     = Some (Json_basenames [''a'', ''a'']) \<and>
   \<not> distinct [''a'', ''a'']"
  by code_simp

text \<open>
  Claim C10. The natural sort keys of \<open>1a\<close> and \<open>a1\<close> cannot be compared: \<open><\<close> raises
  \<open>TypeError\<close> in either order. Whenever two TIFF files of the directory have stems of
  which one starts with a digit and the other with a non-digit, and the tool was located,
  the run ends with that uncaught \<open>TypeError\<close> in the state the search for the tool left:
  no asset is processed and no manifest is written. And \<open>sorted\<close> returns only if every
  two keys are comparable.
\<close>

theorem mixed_identifiers_abort_run:
  "key_lt (natural_sort_key ''1a'') (natural_sort_key ''a1'') = Inl TypeError \<and>
   key_lt (natural_sort_key ''a1'') (natural_sort_key ''1a'') = Inl TypeError \<and>
   (files w ''thumbs'' = None \<and> \<not> denied w (Mkdir ''thumbs'') \<and>
    find_imagemagick_cmd t w = ((Some im, mode), w1) \<and>
    a \<in> set (tiff_files w1) \<and> b \<in> set (tiff_files w1) \<and> mixes (stem a) (stem b) \<longrightarrow>
      main t w = (Uncaught TypeError, w1) \<and> wrote_events w1 = wrote_events w) \<and>
   (py_sorted (\<lambda>p. natural_sort_key (stem p)) xs = Inr r \<longrightarrow>
      (\<forall>x\<in>set xs. \<forall>y\<in>set xs.
          comparable (natural_sort_key (stem x)) (natural_sort_key (stem y))))"
proof (intro conjI impI)
  show "key_lt (natural_sort_key ''1a'') (natural_sort_key ''a1'') = Inl TypeError"
    by (rule key_lt_natural_mixes) (simp add: mixes_def is_digit_def)
  show "key_lt (natural_sort_key ''a1'') (natural_sort_key ''1a'') = Inl TypeError"
    by (rule key_lt_natural_mixes) (simp add: mixes_def is_digit_def)
next
  assume h: "files w ''thumbs'' = None \<and> \<not> denied w (Mkdir ''thumbs'') \<and>
    find_imagemagick_cmd t w = ((Some im, mode), w1) \<and>
    a \<in> set (tiff_files w1) \<and> b \<in> set (tiff_files w1) \<and> mixes (stem a) (stem b)"
  let ?k = "\<lambda>p. natural_sort_key (stem p)"
  have "\<not> (\<exists>r. py_sorted ?k (tiff_files w1) = Inr r)"
    using h py_sorted_natural_iff [of stem "tiff_files w1"] by blast
  then obtain e where e: "py_sorted ?k (tiff_files w1) = Inl e"
    by (cases "py_sorted ?k (tiff_files w1)") auto
  then have "e = TypeError" by (rule py_sorted_raises_TypeError)
  with e main_tool_found [of w t im mode w1] h
  show "main t w = (Uncaught TypeError, w1)" by simp
  have "evolves w w1" using find_evolves [of w t] h by simp
  then show "wrote_events w1 = wrote_events w" by (simp add: evolves_def)
next
  assume "py_sorted (\<lambda>p. natural_sort_key (stem p)) xs = Inr r"
  then have "\<forall>x\<in>set xs. \<forall>y\<in>set xs. \<not> mixes (stem x) (stem y)"
    using py_sorted_natural_iff [of stem xs] by blast
  then show "\<forall>x\<in>set xs. \<forall>y\<in>set xs.
          comparable (natural_sort_key (stem x)) (natural_sort_key (stem y))"
    by (simp add: comparable_natural_iff)
qed

theorem mixed_identifiers_abort_run_witness:
  "fst (main (fake_magick ''b.tif'') dir_mixed) = Uncaught TypeError \<and>
   trace (snd (main (fake_magick ''b.tif'') dir_mixed)) = [Exec [''magick'', ''-version'']] \<and>
   files (snd (main (fake_magick ''b.tif'') dir_mixed)) ''manifest.json'' = None \<and>
   comparable (natural_sort_key (stem ''img2.tif'')) (natural_sort_key (stem ''img10.tif''))"
proof -
  let ?t = "fake_magick ''b.tif''"
  let ?k = "\<lambda>p. natural_sort_key (stem p)"
  let ?w1 = "snd (find_imagemagick_cmd ?t dir_mixed)"
  have h1: "files dir_mixed ''thumbs'' = None" by code_simp
  have h2: "\<not> denied dir_mixed (Mkdir ''thumbs'')" by code_simp
  have "fst (find_imagemagick_cmd ?t dir_mixed) = (Some ''magick'', Some ''magick'')"
    by code_simp
  then have h3: "find_imagemagick_cmd ?t dir_mixed = ((Some ''magick'', Some ''magick''), ?w1)"
    by (simp add: prod_eq_iff)
  have h4: "''1a.tif'' \<in> set (tiff_files ?w1)" "''a1.tif'' \<in> set (tiff_files ?w1)" by code_simp+
  have h5: "mixes (stem ''1a.tif'') (stem ''a1.tif'')" by code_simp
  have tr: "trace ?w1 = [Exec [''magick'', ''-version'']]" by code_simp
  have fm: "files ?w1 ''manifest.json'' = None" by code_simp
  have s: "py_sorted ?k [''img2.tif'', ''img10.tif''] = Inr [''img2.tif'', ''img10.tif'']"
    by code_simp
  have m: "main ?t dir_mixed = (Uncaught TypeError, ?w1)"
    using mixed_identifiers_abort_run
      [of dir_mixed ?t "''magick''" "Some ''magick''" ?w1 "''1a.tif''" "''a1.tif''"]
      h1 h2 h3 h4 h5 by blast
  have c: "comparable (natural_sort_key (stem ''img2.tif'')) (natural_sort_key (stem ''img10.tif''))"
    using mixed_identifiers_abort_run
      [where xs = "[''img2.tif'', ''img10.tif'']" and r = "[''img2.tif'', ''img10.tif'']"] s
    by simp
  from m tr fm c show ?thesis by simp
qed

text \<open>
  Claim C6 (every list of asset identifiers is sorted by the natural ordering) fails on
  the code at the identifiers \<open>1a\<close> and \<open>a1\<close> (files \<open>1a.tif\<close> and \<open>a1.tif\<close>): instead
  of returning a sorted list, \<open>sorted\<close> raises \<open>TypeError\<close>, and \<open>main\<close> ends with it.
\<close>

theorem natural_sort_mixed_identifiers_raise:
  "py_sorted natural_sort_key [''1a'', ''a1''] = Inl TypeError \<and>
   py_sorted (\<lambda>p. natural_sort_key (stem p)) [''1a.tif'', ''a1.tif''] = Inl TypeError \<and>
   fst (main (fake_magick ''b.tif'') dir_mixed) = Uncaught TypeError"
  by code_simp

text \<open>The example of the specification: \<open>img2\<close>, \<open>img10\<close>, \<open>img1\<close>.\<close>

lemma natural_sort_example:
  "py_sorted natural_sort_key [''img2'', ''img10'', ''img1''] = Inr [''img1'', ''img2'', ''img10'']"
  by code_simp

end
